(* ===== verification/Prelude.thy ===== *)
theory Prelude
  imports Main "HOL-Library.Word" "HOL-Library.Sublist"
begin

unbundle bit_operations_syntax

text \<open>
  Shared vocabulary of the development: the machine types of the C++ code, the results of
  code that may throw or have undefined behaviour, the small set of combinators the models
  are composed with, and the generic list lemmas the components share.
\<close>

section \<open>Machine types\<close>

type_synonym byte = "8 word"          \<comment> \<open>\<open>unsigned char\<close>, and the elements of a \<open>std::string\<close>\<close>
type_synonym bytes = "byte list"      \<comment> \<open>\<open>std::string\<close> and byte buffers\<close>
type_synonym size_t = "64 word"

section \<open>Results of code that may throw\<close>

text \<open>
  A piece of code started in a state returns normally (with a value and the state it leaves),
  throws (the state at the throw is kept: C++ does not roll back), or has undefined behaviour.
\<close>

datatype exn = Runtime_error string | Bad_function_call | System_error int

datatype ('a, 'w) res = Ok 'a 'w | Exc exn 'w | Undef

text \<open>Sequencing: the continuation runs only after a normal return.\<close>

fun bind_res :: "('a, 'w) res \<Rightarrow> ('a \<Rightarrow> 'w \<Rightarrow> ('b, 'w) res) \<Rightarrow> ('b, 'w) res" where
  "bind_res (Ok a w) f = f a w"
| "bind_res (Exc e w) f = Exc e w"
| "bind_res Undef f = Undef"

definition seq :: "('a, 'w) res \<Rightarrow> ('w \<Rightarrow> ('b, 'w) res) \<Rightarrow> ('b, 'w) res" where
  "seq r f = bind_res r (\<lambda>_. f)"

text \<open>\<open>try { ... } catch (...) { }\<close>: the exception is dropped, the state it left stays.\<close>

fun swallow :: "('a, 'w) res \<Rightarrow> (unit, 'w) res" where
  "swallow (Ok a w) = Ok () w"
| "swallow (Exc e w) = Ok () w"
| "swallow Undef = Undef"

text \<open>A state predicate that holds however the code ends, and the absence of undefined behaviour.\<close>

fun res_all :: "('w \<Rightarrow> bool) \<Rightarrow> ('a, 'w) res \<Rightarrow> bool" where
  "res_all P (Ok a w) = P w"
| "res_all P (Exc e w) = P w"
| "res_all P Undef = True"

fun state_of :: "('a, 'w) res \<Rightarrow> 'w option" where
  "state_of (Ok a w) = Some w"
| "state_of (Exc e w) = Some w"
| "state_of Undef = None"

fun returns :: "('a, 'w) res \<Rightarrow> bool" where
  "returns (Ok a w) = True"
| "returns _ = False"

lemma seq_simps [simp]:
  "seq (Ok a w) f = f w" "seq (Exc e w) g = Exc e w" "seq Undef h = Undef"
  by (simp_all add: seq_def)

lemma res_all_seq:
  "res_all P r \<Longrightarrow> (\<And>w. P w \<Longrightarrow> res_all P (f w)) \<Longrightarrow> res_all P (seq r f)"
  by (cases r) auto

lemma res_all_bind:
  "res_all P r \<Longrightarrow> (\<And>a w. P w \<Longrightarrow> res_all P (f a w)) \<Longrightarrow> res_all P (bind_res r f)"
  by (cases r) auto

lemma res_all_swallow [simp]: "res_all P (swallow r) = res_all P r"
  by (cases r) auto

text \<open>What follows a \<open>try\<close> block runs in any case.\<close>

lemma res_all_try_then:
  "res_all P (swallow r) \<Longrightarrow> (\<And>w. P w \<Longrightarrow> res_all Q (f w)) \<Longrightarrow> res_all Q (seq (swallow r) f)"
  by (cases r) auto

lemma try_then_not_Exc: "(\<And>w. f w \<noteq> Exc e v) \<Longrightarrow> seq (swallow r) f \<noteq> Exc e v"
  by (cases r) auto

lemma res_all_mono: "res_all P r \<Longrightarrow> (\<And>w. P w \<Longrightarrow> Q w) \<Longrightarrow> res_all Q r"
  by (cases r) auto

lemma res_all_conj: "res_all (\<lambda>w. P w \<and> Q w) r = (res_all P r \<and> res_all Q r)"
  by (cases r) auto

lemma res_all_state_of: "res_all P r \<longleftrightarrow> (\<forall>w. state_of r = Some w \<longrightarrow> P w)"
  by (cases r) auto

lemma state_of_None [simp]: "state_of r = None \<longleftrightarrow> r = Undef"
  by (cases r) auto

lemma swallow_Undef [simp]: "swallow r = Undef \<longleftrightarrow> r = Undef"
  by (cases r) auto

lemma swallow_not_Exc [simp]: "swallow r \<noteq> Exc e w"
  by (cases r) auto

lemma seq_Undef_iff: "seq r f = Undef \<longleftrightarrow> r = Undef \<or> (\<exists>a w. r = Ok a w \<and> f w = Undef)"
  by (cases r) auto

section \<open>Lists\<close>

lemma concat_prefix_mono: "prefix xs ys \<Longrightarrow> prefix (concat xs) (concat ys)"
  by (auto simp: prefix_def)

lemma concat_map_prefix_mono: "prefix xs ys \<Longrightarrow> prefix (concat (map f xs)) (concat (map f ys))"
  by (auto simp: prefix_def)

lemma length_overwrite:
  "length d \<le> length xs \<Longrightarrow> length (d @ drop (length d) xs) = length xs"
  by simp

lemma filter_eq_singleton_nth:
  assumes "filter P xs = [x]" "k < length xs" "P (xs ! k)"
  shows "xs ! k = x"
proof -
  have "xs ! k \<in> set (filter P xs)" using assms(2,3) by simp
  then show ?thesis using assms(1) by simp
qed

text \<open>Removing the element at a position.\<close>

definition remove_at :: "nat \<Rightarrow> 'a list \<Rightarrow> 'a list" where
  "remove_at k xs = take k xs @ drop (Suc k) xs"

lemma filter_remove_at_other:
  assumes "k < length xs" "\<not> P (xs ! k)"
  shows "filter P (remove_at k xs) = filter P xs"
proof -
  have "xs = take k xs @ xs ! k # drop (Suc k) xs" using assms(1) by (rule id_take_nth_drop)
  then have "filter P xs = filter P (take k xs) @ filter P (xs ! k # drop (Suc k) xs)"
    by (metis filter_append)
  then show ?thesis using assms(2) by (simp add: remove_at_def)
qed

lemma filter_remove_at_single:
  assumes "k < length xs" "P (xs ! k)" "filter P xs = [x]"
  shows "filter P (remove_at k xs) = []"
proof -
  have "xs = take k xs @ xs ! k # drop (Suc k) xs" using assms(1) by (rule id_take_nth_drop)
  then have "filter P xs = filter P (take k xs) @ xs ! k # filter P (drop (Suc k) xs)"
    using assms(2) by (metis filter.simps(2) filter_append)
  then show ?thesis using assms(3) by (auto simp: remove_at_def append_eq_Cons_conv Cons_eq_append_conv)
qed

lemma filter_no_match:
  assumes "filter P xs = []" "k < length xs" shows "\<not> P (xs ! k)"
  using assms by (metis filter_empty_conv nth_mem)

end
