(* ===== verification/Stream_Codec.thy ===== *)
theory Stream_Codec
  imports Prelude
begin

text \<open>
  The interface between a message format and a byte stream that carries a sequence of messages.
  A format is an encoder and a decoder of one message at the head of a stream; the laws say that
  the decoder inverts the encoder whatever follows, and accepts only encodings. From them follow
  the facts a FIFO transport needs: a stream is decoded into exactly the messages it is made of,
  and a prefix of a stream into a prefix of its messages.
\<close>

section \<open>Decoding a stream\<close>

function decode_all :: "('b list \<Rightarrow> ('a \<times> 'b list) option) \<Rightarrow> 'b list \<Rightarrow> 'a list \<times> 'b list" where
  "decode_all dec bs =
     (case dec bs of
        None \<Rightarrow> ([], bs)
      | Some (x, rest) \<Rightarrow>
          if length rest < length bs
          then (let (xs, left) = decode_all dec rest in (x # xs, left))
          else ([], bs))"
  by pat_completeness auto
termination
  by (relation "measure (\<lambda>(dec, bs). length bs)") auto

declare decode_all.simps [simp del]

lemma decode_all_None: "dec bs = None \<Longrightarrow> decode_all dec bs = ([], bs)"
  by (simp add: decode_all.simps)

section \<open>The contract of a format\<close>

locale stream_codec =
  fixes enc :: "'a \<Rightarrow> 'b list"
    and ok :: "'a \<Rightarrow> bool"
    and dec :: "'b list \<Rightarrow> ('a \<times> 'b list) option"
  assumes dec_enc: "ok x \<Longrightarrow> dec (enc x @ rest) = Some (x, rest)"
    and dec_sound: "dec bs = Some (x, rest) \<Longrightarrow> ok x \<and> bs = enc x @ rest"
    and enc_nonempty: "ok x \<Longrightarrow> enc x \<noteq> []"
begin

lemma decode_all_step:
  "ok x \<Longrightarrow> decode_all dec (enc x @ rest) = (x # fst (decode_all dec rest), snd (decode_all dec rest))"
  by (subst decode_all.simps) (simp add: dec_enc enc_nonempty case_prod_unfold Let_def)

lemma decode_all_append:
  "\<forall>x \<in> set xs. ok x \<Longrightarrow>
   decode_all dec (concat (map enc xs) @ rest) = (xs @ fst (decode_all dec rest), snd (decode_all dec rest))"
  by (induction xs) (simp_all add: decode_all_step)

lemma dec_Nil: "dec [] = None"
  by (cases "dec []") (auto dest: dec_sound simp: enc_nonempty)

lemma decode_all_concat:
  "\<forall>x \<in> set xs. ok x \<Longrightarrow> decode_all dec (concat (map enc xs)) = (xs, [])"
  using decode_all_append [of xs "[]"] decode_all_None [of dec "[]", OF dec_Nil] by simp

lemma decode_all_partial:
  "\<forall>x \<in> set xs. ok x \<Longrightarrow> dec left = None \<Longrightarrow> decode_all dec (concat (map enc xs) @ left) = (xs, left)"
  by (simp add: decode_all_append decode_all_None)

lemma concat_enc_inject:
  assumes "\<forall>x \<in> set xs. ok x" "\<forall>y \<in> set ys. ok y" "concat (map enc xs) = concat (map enc ys)"
  shows "xs = ys"
  using assms by (metis decode_all_concat prod.inject)

text \<open>A prefix of a stream decodes to a prefix of its messages.\<close>

lemma prefix_decode:
  assumes "\<forall>x \<in> set xs. ok x" "\<forall>y \<in> set ys. ok y"
    and "prefix (concat (map enc xs) @ left) (concat (map enc ys))"
  shows "prefix xs ys"
proof -
  from assms(3) obtain r where "concat (map enc ys) = concat (map enc xs) @ (left @ r)"
    by (auto simp: prefix_def)
  then have "ys = xs @ fst (decode_all dec (left @ r))"
    using decode_all_append [OF assms(1)] decode_all_concat [OF assms(2)] by simp
  then show ?thesis by (simp add: prefix_def)
qed

lemma codec_inject:
  "ok x \<Longrightarrow> ok y \<Longrightarrow> enc x @ r = enc y @ s \<Longrightarrow> x = y \<and> r = s"
  by (metis dec_enc option.inject prod.inject)

end

end
