(* ===== verification/Com_Message.thy ===== *)
theory Com_Message
  imports Stream_Codec
begin

text \<open>
  The frame format of the library: \<open>src/src/com_message.hpp\<close> and \<open>com_message.cpp\<close>.
  A message is a four-byte header (a reserved zero byte and the payload length as a 24-bit
  big-endian number) and the payload. The constructor from a string and \<open>parse_header\<close> are
  modelled on 64-bit \<open>size_t\<close> words with the shifts and masks of the source.
\<close>

section \<open>Data and operations\<close>

definition com_max_message_size :: size_t where
  "com_max_message_size = 0x00ffffff"

record com_message =
  header :: bytes      \<comment> \<open>\<open>unsigned char header[4]\<close>\<close>
  payload :: bytes

definition com_message_default :: com_message where
  "com_message_default = \<lparr>header = [0, 0, 0, 0], payload = []\<rparr>"

text \<open>
  \<open>content.size()\<close> is a \<open>size_t\<close>. The length of a \<open>std::string\<close> always fits, so the guard is
  written on the length itself; \<open>size_guard_word\<close> below is the same guard on words.
\<close>

definition com_message_of :: "bytes \<Rightarrow> exn + com_message" where
  "com_message_of content =
     (if content = [] \<or> length content > unat com_max_message_size
      then Inl (Runtime_error ''invalid message size'')
      else let n = (of_nat (length content) :: size_t) in
        Inr \<lparr>header = [0,
                       ucast (drop_bit 16 n AND 0xff),
                       ucast (drop_bit 8 n AND 0xff),
                       ucast (n AND 0xff)],
             payload = content\<rparr>)"

text \<open>The loop \<open>for (int i = 1; i < 4; i++)\<close> of \<open>parse_header\<close>.\<close>

function parse_header_loop :: "bytes \<Rightarrow> nat \<Rightarrow> size_t \<Rightarrow> size_t" where
  "parse_header_loop h i len =
     (if i < 4 then parse_header_loop h (i + 1) (push_bit 8 len OR (ucast (h ! i) AND 0xff))
      else len)"
  by pat_completeness auto
termination
  by (relation "measure (\<lambda>(h, i, len). 4 - i)") auto

declare parse_header_loop.simps [simp del]

text \<open>
  The out-parameter \<open>length\<close> is passed in and returned: it is left as it was when the reserved
  byte is set.
\<close>

definition parse_header :: "com_message \<Rightarrow> size_t \<Rightarrow> bool \<times> size_t" where
  "parse_header m len =
     (if header m ! 0 \<noteq> 0 then (False, len)
      else let n = parse_header_loop (header m) 1 0
           in (n > 0 \<and> n \<le> com_max_message_size, n))"

text \<open>A frame as it appears on the wire, and the contents the constructor accepts.\<close>

definition frame :: "com_message \<Rightarrow> bytes" where
  "frame m = header m @ payload m"

definition valid_content :: "bytes \<Rightarrow> bool" where
  "valid_content c \<longleftrightarrow> c \<noteq> [] \<and> length c \<le> 0xffffff"

section \<open>Big-endian numbers of three bytes\<close>

definition be24 :: "byte \<Rightarrow> byte \<Rightarrow> byte \<Rightarrow> size_t" where
  "be24 a b c = push_bit 8 (push_bit 8 (ucast a) OR ucast b) OR ucast c"

lemma byte_mask [simp]: "(ucast (x :: byte) AND 0xff :: size_t) = ucast x"
proof -
  have "(0xff :: size_t) = mask 8" by (simp add: mask_eq_exp_minus_1)
  then show ?thesis
    by (simp add: bit_eq_iff bit_simps) (auto dest: bit_imp_le_length)
qed

lemma parse_header_loop_be24: "parse_header_loop [h0, a, b, c] (Suc 0) 0 = be24 a b c"
  by (simp add: parse_header_loop.simps be24_def)

lemma mask8: "(0xff :: size_t) = mask 8" by (simp add: mask_eq_exp_minus_1)

lemma be24_bytes:
  "ucast (drop_bit 16 (be24 a b c) AND 0xff) = a"
  "ucast (drop_bit 8 (be24 a b c) AND 0xff) = b"
  "ucast (be24 a b c AND 0xff) = c"
  unfolding be24_def mask8
  by (rule bit_word_eqI; auto simp: bit_simps dest: bit_imp_le_length)+

lemma unat_byte_less: "unat (x :: byte) < 256"
proof -
  have "unat x < 2 ^ LENGTH(8)" by (rule unsigned_less)
  then show ?thesis by simp
qed

lemma unat_ucast_byte: "unat (ucast (x :: byte) :: size_t) = unat x"
  using unat_byte_less [of x] by (simp add: unsigned_ucast_eq take_bit_nat_eq_self_iff)

lemma unat_shift_or:
  assumes "unat (x :: size_t) < 65536"
  shows "unat (push_bit 8 x OR ucast (b :: byte)) = 256 * unat x + unat b"
proof -
  have "push_bit 8 x OR ucast b = push_bit 8 x + ucast b"
    by (rule disjunctive_add [symmetric]) (auto simp: bit_simps dest: bit_imp_le_length)
  moreover have "unat (push_bit 8 x) = 256 * unat x"
    using assms by (simp add: push_bit_eq_mult unat_word_ariths)
  ultimately show ?thesis
    using assms unat_byte_less [of b] by (simp add: unat_word_ariths unat_ucast_byte)
qed

lemma unat_be24: "unat (be24 a b c) = 65536 * unat a + 256 * unat b + unat c"
proof -
  note bd = unat_byte_less [of a] unat_byte_less [of b]
  have ab: "unat (push_bit 8 (ucast a) OR ucast b :: size_t) = 256 * unat a + unat b"
    using bd by (subst unat_shift_or) (simp_all add: unat_ucast_byte)
  show ?thesis unfolding be24_def
    using bd by (subst unat_shift_or) (simp_all add: ab)
qed

lemma unat_max [simp]: "unat com_max_message_size = 0xffffff"
  by (simp add: com_max_message_size_def)

lemma be24_bound: "be24 a b c \<le> com_max_message_size"
  using unat_byte_less [of a] unat_byte_less [of b] unat_byte_less [of c]
  by (simp add: word_le_nat_alt unat_be24)

lemma be24_of_bytes:
  assumes "n \<le> com_max_message_size"
  shows "be24 (ucast (drop_bit 16 n AND 0xff)) (ucast (drop_bit 8 n AND 0xff)) (ucast (n AND 0xff)) = n"
proof -
  have "unat n < 2 ^ 24" using assms by (simp add: word_le_nat_alt)
  then have "unat (take_bit 24 n) = unat n" by (simp add: unsigned_take_bit_eq take_bit_nat_eq_self_iff)
  then have "take_bit 24 n = n" by (simp only: unsigned_word_eqI)
  then have low: "bit n k \<Longrightarrow> k < 24" for k
    by (metis bit_take_bit_iff)
  show ?thesis unfolding be24_def mask8
  proof (rule bit_word_eqI)
    fix k :: nat assume "k < LENGTH(64)"
    consider "k < 8" | "8 \<le> k" "k < 16" | "16 \<le> k" "k < 24" | "24 \<le> k" by linarith
    then show "bit (push_bit 8 (push_bit 8 (ucast (ucast (drop_bit 16 n AND mask 8) :: byte)) OR
        ucast (ucast (drop_bit 8 n AND mask 8) :: byte)) OR ucast (ucast (n AND mask 8) :: byte) :: size_t) k = bit n k"
      using low [of k] by cases (auto simp: bit_simps dest: bit_imp_le_length)
  qed
qed


section \<open>The constructor and the header parser\<close>

lemma unat_size: "n < 2 ^ 64 \<Longrightarrow> unat (of_nat n :: size_t) = n"
  by (simp add: unsigned_of_nat take_bit_nat_eq_self_iff)

lemma size_guard_word:
  "length c < 2 ^ 64 \<Longrightarrow>
   of_nat (length c) > com_max_message_size \<longleftrightarrow> length c > unat com_max_message_size"
  by (simp only: word_less_nat_alt unat_size)

lemma valid_content_size:
  assumes "valid_content c"
  shows "unat (of_nat (length c) :: size_t) = length c"
    and "(of_nat (length c) :: size_t) \<le> com_max_message_size"
    and "(of_nat (length c) :: size_t) > 0"
proof -
  show u: "unat (of_nat (length c) :: size_t) = length c"
    using assms by (intro unat_size) (simp add: valid_content_def)
  show "(of_nat (length c) :: size_t) \<le> com_max_message_size"
    using assms by (simp only: word_le_nat_alt u unat_max) (simp add: valid_content_def)
  have "unat (0 :: size_t) < unat (of_nat (length c) :: size_t)"
    using assms by (simp only: u) (simp add: valid_content_def)
  then show "(of_nat (length c) :: size_t) > 0"
    by (simp only: word_less_nat_alt)
qed

text \<open>The header the constructor writes, and the frame of a content.\<close>

definition header_of :: "bytes \<Rightarrow> bytes" where
  "header_of c = (let n = (of_nat (length c) :: size_t) in
     [0, ucast (drop_bit 16 n AND 0xff), ucast (drop_bit 8 n AND 0xff), ucast (n AND 0xff)])"

definition frame_of :: "bytes \<Rightarrow> bytes" where
  "frame_of c = header_of c @ c"

lemma length_header_of [simp]: "length (header_of c) = 4"
  by (simp add: header_of_def Let_def)

lemma com_message_of_valid [simp]:
  "valid_content c \<Longrightarrow> com_message_of c = Inr \<lparr>header = header_of c, payload = c\<rparr>"
  by (simp add: com_message_of_def valid_content_def header_of_def Let_def)

lemma com_message_of_invalid [simp]:
  "\<not> valid_content c \<Longrightarrow> com_message_of c = Inl (Runtime_error ''invalid message size'')"
  by (auto simp: com_message_of_def valid_content_def)

lemma com_message_of_Inr_iff:
  "com_message_of c = Inr m \<longleftrightarrow> valid_content c \<and> m = \<lparr>header = header_of c, payload = c\<rparr>"
  by (cases "valid_content c") auto

lemma parse_header_be24:
  "header m = [h, a, b, c] \<Longrightarrow>
   parse_header m len = (if h \<noteq> 0 then (False, len) else (be24 a b c > 0, be24 a b c))"
  by (simp add: parse_header_def parse_header_loop_be24 be24_bound Let_def)

lemma parse_header_of:
  assumes "valid_content c" "header m = header_of c"
  shows "parse_header m len = (True, of_nat (length c))"
proof -
  let ?n = "of_nat (length c) :: size_t"
  have "header m = [0, ucast (drop_bit 16 ?n AND 0xff), ucast (drop_bit 8 ?n AND 0xff), ucast (?n AND 0xff)]"
    using assms(2) by (simp add: header_of_def Let_def)
  from parse_header_be24 [OF this, of len] show ?thesis
    using valid_content_size(3) [OF assms(1)]
    by (simp add: be24_of_bytes [OF valid_content_size(2) [OF assms(1)]])
qed

lemma list4E:
  assumes "length xs = 4" obtains a b c d where "xs = [a, b, c, d]"
  using assms by (auto simp: length_Suc_conv numeral_eq_Suc)

lemma parse_header_True:
  assumes "length (header m) = 4" "parse_header m len = (True, n)"
  shows "n > 0" and "n \<le> com_max_message_size"
    and "\<And>c. length c = unat n \<Longrightarrow> valid_content c \<and> header m = header_of c"
proof -
  obtain h a b c where hd: "header m = [h, a, b, c]" using assms(1) by (rule list4E)
  have p: "h = 0" "n = be24 a b c" "n > 0"
    using assms(2) by (auto simp: parse_header_be24 [OF hd] split: if_splits)
  show "n > 0" by (fact p)
  show le: "n \<le> com_max_message_size" by (simp add: p be24_bound)
  fix cs :: bytes assume len: "length cs = unat n"
  have v: "valid_content cs"
    using le \<open>n > 0\<close> by (auto simp: valid_content_def len word_le_nat_alt word_less_nat_alt
        simp flip: length_0_conv)
  have "(of_nat (length cs) :: size_t) = n" by (simp add: len)
  then have "header_of cs = [h, a, b, c]"
    by (simp only: header_of_def Let_def) (simp only: p be24_bytes)
  then show "valid_content cs \<and> header m = header_of cs" using v hd by simp
qed

lemma parse_header_False:
  "parse_header m len = (False, n) \<Longrightarrow> \<exists>n'. parse_header m len' = (False, n')"
  by (auto simp: parse_header_def Let_def split: if_splits)

lemma parse_header_len_irrelevant:
  "parse_header m len = (True, n) \<Longrightarrow> parse_header m len' = (True, n)"
  by (auto simp: parse_header_def Let_def split: if_splits)

section \<open>The frame format as a stream codec\<close>

text \<open>
  Reading one frame off the head of a byte stream with the library's own header parser: the
  reference the asynchronous reader of \<open>asio_session\<close> is compared with.
\<close>

definition parse_frame :: "bytes \<Rightarrow> (bytes \<times> bytes) option" where
  "parse_frame bs =
     (if length bs < 4 then None
      else case parse_header \<lparr>header = take 4 bs, payload = []\<rparr> 0 of
        (False, _) \<Rightarrow> None
      | (True, n) \<Rightarrow>
          if length (drop 4 bs) < unat n then None
          else Some (take (unat n) (drop 4 bs), drop (unat n) (drop 4 bs)))"

lemma parse_frame_frame_of: "valid_content c \<Longrightarrow> parse_frame (frame_of c @ rest) = Some (c, rest)"
  using parse_header_of [of c "\<lparr>header = header_of c, payload = []\<rparr>" 0]
  by (simp add: parse_frame_def frame_of_def valid_content_size(1))

lemma parse_frame_sound:
  assumes "parse_frame bs = Some (c, rest)"
  shows "valid_content c \<and> bs = frame_of c @ rest"
proof -
  let ?m = "\<lparr>header = take 4 bs, payload = []\<rparr>"
  from assms have len: "length bs \<ge> 4" by (auto simp: parse_frame_def split: if_splits)
  from assms len obtain n where n: "parse_header ?m 0 = (True, n)"
    and le: "unat n \<le> length (drop 4 bs)"
    and c: "c = take (unat n) (drop 4 bs)" and r: "rest = drop (unat n) (drop 4 bs)"
    by (auto simp: parse_frame_def split: if_splits bool.splits prod.splits)
  have "length c = unat n" using le c by simp
  then have "valid_content c \<and> header ?m = header_of c"
    using parse_header_True(3) [OF _ n, of c] len by simp
  moreover have "bs = take 4 bs @ c @ rest" by (simp only: c r append_take_drop_id)
  ultimately show ?thesis by (simp add: frame_of_def)
qed

interpretation wire: stream_codec frame_of valid_content parse_frame
proof
  show "valid_content x \<Longrightarrow> parse_frame (frame_of x @ rest) = Some (x, rest)" for x rest
    by (rule parse_frame_frame_of)
  show "parse_frame bs = Some (x, rest) \<Longrightarrow> valid_content x \<and> bs = frame_of x @ rest" for bs x rest
    by (rule parse_frame_sound)
  show "valid_content x \<Longrightarrow> frame_of x \<noteq> []" for x
    by (simp add: frame_of_def valid_content_def)
qed

text \<open>Streams that stop inside a frame, or whose next header is refused.\<close>

lemma parse_frame_short: "length bs < 4 \<Longrightarrow> parse_frame bs = None"
  by (simp add: parse_frame_def)

lemma parse_frame_bad_header:
  "length h = 4 \<Longrightarrow> parse_header \<lparr>header = h, payload = []\<rparr> 0 = (False, n) \<Longrightarrow> parse_frame (h @ bs) = None"
  by (simp add: parse_frame_def)

lemma parse_frame_incomplete:
  "length h = 4 \<Longrightarrow> parse_header \<lparr>header = h, payload = []\<rparr> 0 = (True, n) \<Longrightarrow> length bs < unat n
   \<Longrightarrow> parse_frame (h @ bs) = None"
  by (simp add: parse_frame_def)

section \<open>Properties\<close>

text \<open>
  a message built from a string carries that string; its header is four bytes with a zero
  reserved byte, and \<open>parse_header\<close> reads back exactly the length of the string.
\<close>

theorem header_roundtrip:
  assumes "com_message_of content = Inr m"
  shows "payload m = content \<and> length (header m) = 4 \<and> header m ! 0 = 0
    \<and> fst (parse_header m len) \<and> unat (snd (parse_header m len)) = length content"
proof -
  from assms have v: "valid_content content" and m: "m = \<lparr>header = header_of content, payload = content\<rparr>"
    by (auto simp: com_message_of_Inr_iff)
  have "parse_header m len = (True, of_nat (length content))"
    by (rule parse_header_of [OF v]) (simp add: m)
  then show ?thesis using v by (simp add: m header_of_def Let_def valid_content_size(1))
qed

theorem header_roundtrip_witness:
  "com_message_of [72, 105] = Inr \<lparr>header = [0, 0, 0, 2], payload = [72, 105]\<rparr>
   \<and> unat (snd (parse_header \<lparr>header = [0, 0, 0, 2], payload = [72, 105]\<rparr> 7)) = length [72, 105 :: byte]"
proof -
  have m: "com_message_of [72, 105] = Inr \<lparr>header = [0, 0, 0, 2], payload = [72, 105]\<rparr>"
    by (simp add: com_message_of_def)
  from header_roundtrip [OF m, of 7] m show ?thesis by simp
qed

text \<open>
  C18: \<open>parse_header\<close> accepts exactly the headers the constructor writes: a four-byte header is accepted
  if and only if it is the header of a message built from some string.
\<close>

theorem parse_header_exact:
  assumes "length (header m) = 4"
  shows "fst (parse_header m len) = (\<exists>content m'. com_message_of content = Inr m' \<and> header m' = header m)"
proof
  assume "fst (parse_header m len)"
  then obtain n where n: "parse_header m len = (True, n)" by (cases "parse_header m len") auto
  let ?c = "replicate (unat n) 0 :: bytes"
  have "valid_content ?c \<and> header m = header_of ?c" by (rule parse_header_True(3) [OF assms n]) simp
  then show "\<exists>content m'. com_message_of content = Inr m' \<and> header m' = header m"
    by (intro exI [of _ ?c] exI [of _ "\<lparr>header = header_of ?c, payload = ?c\<rparr>"]) simp
next
  assume "\<exists>content m'. com_message_of content = Inr m' \<and> header m' = header m"
  then obtain content where "valid_content content" "header m = header_of content"
    by (auto simp: com_message_of_Inr_iff)
  then show "fst (parse_header m len)" by (simp add: parse_header_of)
qed

theorem parse_header_exact_witness:
  "\<exists>content m'. com_message_of content = Inr m' \<and> header m' = [0, 0, 1, 0]"
  using parse_header_exact [of "\<lparr>header = [0, 0, 1, 0], payload = []\<rparr>" 0]
  by (simp add: parse_header_be24 be24_def)

text \<open>
  C19: the number \<open>parse_header\<close> reads is the big-endian value of the last three header bytes; a header is
  refused exactly if its first byte is set, when the out-parameter is left alone, or this value is zero:
  the test against the maximum size never fails.
\<close>

theorem parse_header_value:
  assumes "header m = [r, a, b, c]"
  shows "parse_header m len =
    (if r \<noteq> 0 then (False, len)
     else (a \<noteq> 0 \<or> b \<noteq> 0 \<or> c \<noteq> 0, of_nat (65536 * unat a + 256 * unat b + unat c)))"
proof -
  have "be24 a b c = of_nat (65536 * unat a + 256 * unat b + unat c)"
    by (simp only: flip: unat_be24) simp
  moreover have "be24 a b c > 0 \<longleftrightarrow> a \<noteq> 0 \<or> b \<noteq> 0 \<or> c \<noteq> 0"
  proof -
    have "be24 a b c > 0 \<longleftrightarrow> unat (be24 a b c) > 0" by (simp add: word_less_nat_alt)
    also have "\<dots> \<longleftrightarrow> unat a \<noteq> 0 \<or> unat b \<noteq> 0 \<or> unat c \<noteq> 0" by (simp add: unat_be24)
    finally show ?thesis by (simp only: unsigned_eq_0_iff)
  qed
  ultimately show ?thesis by (simp add: parse_header_be24 [OF assms])
qed

theorem parse_header_value_witness:
  "parse_header \<lparr>header = [0, 1, 2, 3], payload = []\<rparr> 9 = (True, 66051)"
  using parse_header_value [of "\<lparr>header = [0, 1, 2, 3], payload = []\<rparr>" 0 1 2 3 9] by simp

text \<open>
  C20: the frames of any messages, one after the other, decode to exactly the contents of these messages, with
  nothing left over.
\<close>

theorem frames_roundtrip:
  assumes "map com_message_of contents = map Inr messages"
  shows "decode_all parse_frame (concat (map frame messages)) = (contents, [])"
proof -
  have one: "com_message_of c = Inr m \<Longrightarrow> valid_content c \<and> frame m = frame_of c" for c m
    by (auto simp: com_message_of_Inr_iff frame_def frame_of_def)
  have "(\<forall>c \<in> set contents. valid_content c) \<and> map frame messages = map frame_of contents"
    using assms
  proof (induction contents arbitrary: messages)
    case (Cons c cs)
    from Cons.prems obtain m ms where m: "messages = m # ms" "com_message_of c = Inr m" "map com_message_of cs = map Inr ms"
      by (cases messages) auto
    show ?case using Cons.IH [OF m(3)] one [OF m(2)] by (simp add: m(1))
  qed simp
  then show ?thesis using wire.decode_all_concat [of contents] by metis
qed

theorem frames_roundtrip_witness:
  "decode_all parse_frame (concat (map frame
      [\<lparr>header = [0, 0, 0, 1], payload = [33]\<rparr>, \<lparr>header = [0, 0, 0, 2], payload = [72, 105]\<rparr>]))
    = ([[33], [72, 105]], [])"
  by (rule frames_roundtrip) (simp add: com_message_of_def)

end
