(* ===== verification/Asio_Session.thy ===== *)
theory Asio_Session
  imports Com_Message
begin

text \<open>
  The session class: \<open>src/src/asio_session.hpp\<close>, \<open>asio_session.cpp\<close>, \<open>session.cpp\<close> and the
  interface \<open>src/inc/oizys/session_i.hpp\<close>. Sessions live in a store indexed by object identity.
  A method that touches only its own object is a function on the session record; a method that
  runs user code (a close or message handler, which may call back into any session) is a function
  on the whole store. Asynchronous operations are entries of the session's \<open>pending\<close> list: they
  are started by the methods and completed, in any order, by the environment.
\<close>

section \<open>Error codes and handlers\<close>

datatype error_category = System_category | Generic_category | Other_category nat

record error_code =
  ec_value :: int
  ec_category :: error_category

text \<open>\<open>boost::system::error_code err;\<close> and \<open>if (err)\<close>.\<close>

definition no_error :: error_code where
  "no_error = \<lparr>ec_value = 0, ec_category = System_category\<rparr>"

definition failed :: "error_code \<Rightarrow> bool" where
  "failed err \<longleftrightarrow> ec_value err \<noteq> 0"

definition EBADMSG :: int where
  "EBADMSG = 74"

definition bad_message :: error_code where
  "bad_message = \<lparr>ec_value = EBADMSG, ec_category = Generic_category\<rparr>"

text \<open>
  A \<open>std::function\<close>: empty, a closure of the user, or the lambda \<open>[](auto){}\<close> that the library
  installs when a session is closed. \<open>if (f)\<close> is \<open>f \<noteq> Empty\<close>.
\<close>

datatype 'h func = Empty | No_op | User 'h

section \<open>Asynchronous operations\<close>

text \<open>
  The four operations a session starts: reads into the header array (four bytes) or into the
  payload (resized to its length before), writes of a header or a payload. The buffer of a write
  is the front element of the queue, which stays in place until it is popped.
\<close>

datatype aop =
    Read_header
  | Read_payload nat
  | Write_header bytes
  | Write_payload bytes

fun is_read :: "aop \<Rightarrow> bool" where
  "is_read Read_header = True"
| "is_read (Read_payload n) = True"
| "is_read _ = False"

fun op_size :: "aop \<Rightarrow> nat" where
  "op_size Read_header = 4"
| "op_size (Read_payload n) = n"
| "op_size (Write_header b) = length b"
| "op_size (Write_payload b) = length b"

section \<open>The session object\<close>

text \<open>
  The first five fields are the members of the class (\<open>socket_open\<close> is \<open>socket_.is_open()\<close>).
  \<open>pending\<close> holds the operations started and not completed, each with whether the socket was
  open when it was started. The last six fields are history, which no code reads: contents
  accepted by \<open>send\<close>, bytes written and read, payloads read completely, payloads handed to a
  user's message handler, and error codes handed to a user's close handler.
\<close>

record ('m, 'c) session =
  socket_open :: bool
  message_to_read :: com_message
  write_queue :: "com_message list"
  onmessage :: "'m func"
  onclose :: "'c func"
  pending :: "(aop \<times> bool) list"
  accepted :: "bytes list"
  wire_out :: bytes
  wire_in :: bytes
  frames_in :: "bytes list"
  delivered :: "bytes list"
  notified :: "error_code list"

text \<open>The constructor, given a socket.\<close>

definition asio_session :: "bool \<Rightarrow> ('m, 'c) session" where
  "asio_session sock =
     \<lparr>socket_open = sock, message_to_read = com_message_default, write_queue = [],
      onmessage = Empty, onclose = Empty, pending = [],
      accepted = [], wire_out = [], wire_in = [], frames_in = [], delivered = [], notified = []\<rparr>"

definition async_start :: "aop \<Rightarrow> ('m, 'c) session \<Rightarrow> ('m, 'c) session" where
  "async_start op s = s\<lparr>pending := pending s @ [(op, socket_open s)]\<rparr>"

section \<open>Methods on the session's own object\<close>

definition read_header :: "('m, 'c) session \<Rightarrow> ('m, 'c) session" where
  "read_header s = async_start Read_header s"

text \<open>\<open>payload.resize(length)\<close> keeps a prefix of the old payload and pads with zero bytes.\<close>

definition resize :: "nat \<Rightarrow> bytes \<Rightarrow> bytes" where
  "resize n b = take n b @ replicate (n - length b) 0"

definition read_payload :: "size_t \<Rightarrow> ('m, 'c) session \<Rightarrow> ('m, 'c) session" where
  "read_payload len s =
     (let m = message_to_read s in
      async_start (Read_payload (unat len))
        (s\<lparr>message_to_read := m\<lparr>payload := resize (unat len) (payload m)\<rparr>\<rparr>))"

definition write_header :: "('m, 'c) session \<Rightarrow> ('m, 'c) session" where
  "write_header s =
     (case write_queue s of
        [] \<Rightarrow> s
      | message # _ \<Rightarrow> async_start (Write_header (header message)) s)"

definition write_payload :: "('m, 'c) session \<Rightarrow> ('m, 'c) session" where
  "write_payload s =
     (case write_queue s of
        [] \<Rightarrow> s
      | message # _ \<Rightarrow> async_start (Write_payload (payload message)) s)"

text \<open>\<open>write_queue.emplace(message)\<close> runs the throwing constructor before the queue changes.\<close>

definition send :: "bytes \<Rightarrow> ('m, 'c) session \<Rightarrow> (nat, ('m, 'c) session) res" where
  "send message s =
     (case com_message_of message of
        Inl e \<Rightarrow> Exc e s
      | Inr m \<Rightarrow>
          let s1 = s\<lparr>write_queue := write_queue s @ [m], accepted := accepted s @ [message]\<rparr>;
              count = length (write_queue s1)
          in Ok count (if count = 1 then write_header s1 else s1))"

definition set_onmessage :: "'m func \<Rightarrow> ('m, 'c) session \<Rightarrow> (unit, ('m, 'c) session) res" where
  "set_onmessage handler s =
     (if onmessage s \<noteq> Empty then Exc (Runtime_error ''handler already set'') s
      else Ok () (read_header (s\<lparr>onmessage := handler\<rparr>)))"

text \<open>
  What the completion handlers of the two writes do after a success; \<open>pop\<close> on an empty queue
  is undefined.
\<close>

definition header_written :: "('m, 'c) session \<Rightarrow> (unit, ('m, 'c) session) res" where
  "header_written s = Ok () (write_payload s)"

definition payload_written :: "('m, 'c) session \<Rightarrow> (unit, ('m, 'c) session) res" where
  "payload_written s =
     (case write_queue s of
        [] \<Rightarrow> Undef
      | _ # rest \<Rightarrow> Ok () (write_header (s\<lparr>write_queue := rest\<rparr>)))"

section \<open>The store of sessions and user code\<close>

type_synonym sid = nat

record ('m, 'c) world =
  heap :: "sid \<Rightarrow> ('m, 'c) session"
  next_sid :: sid

definition on_session ::
    "sid \<Rightarrow> (('m, 'c) session \<Rightarrow> ('m, 'c) session) \<Rightarrow> ('m, 'c, 'x) world_scheme \<Rightarrow> ('m, 'c, 'x) world_scheme" where
  "on_session i f w = w\<lparr>heap := (heap w)(i := f (heap w i))\<rparr>"

fun lift_session ::
    "sid \<Rightarrow> ('m, 'c, 'x) world_scheme \<Rightarrow> ('a, ('m, 'c) session) res \<Rightarrow> ('a, ('m, 'c, 'x) world_scheme) res" where
  "lift_session i w (Ok a s) = Ok a (on_session i (\<lambda>_. s) w)"
| "lift_session i w (Exc e s) = Exc e (on_session i (\<lambda>_. s) w)"
| "lift_session i w Undef = Undef"

text \<open>A method call on the session \<open>i\<close> of the store, for a method that runs no user code.\<close>

definition call_on ::
    "sid \<Rightarrow> (('m, 'c) session \<Rightarrow> ('a, ('m, 'c) session) res) \<Rightarrow> ('m, 'c, 'x) world_scheme
     \<Rightarrow> ('a, ('m, 'c, 'x) world_scheme) res" where
  "call_on i f w = lift_session i w (f (heap w i))"

text \<open>\<open>create_session\<close>: a new object, known by the next identity.\<close>

definition create_session ::
    "bool \<Rightarrow> ('m, 'c, 'x) world_scheme \<Rightarrow> (sid, ('m, 'c, 'x) world_scheme) res" where
  "create_session sock w =
     Ok (next_sid w) (w\<lparr>heap := (heap w)(next_sid w := asio_session sock), next_sid := Suc (next_sid w)\<rparr>)"

text \<open>
  User code is a parameter: what the body of each user closure does to the store when it is
  called. It may call any method of any session, and it may throw.
\<close>

record ('m, 'c, 'w) user_code =
  run_message :: "'m \<Rightarrow> bytes \<Rightarrow> 'w \<Rightarrow> (unit, 'w) res"
  run_close :: "'c \<Rightarrow> error_code \<Rightarrow> 'w \<Rightarrow> (unit, 'w) res"

text \<open>Calling a \<open>std::function\<close>: an empty one throws \<open>std::bad_function_call\<close>.\<close>

fun invoke_close ::
    "('m, 'c, ('m, 'c, 'x) world_scheme) user_code \<Rightarrow> sid \<Rightarrow> 'c func \<Rightarrow> error_code
     \<Rightarrow> ('m, 'c, 'x) world_scheme \<Rightarrow> (unit, ('m, 'c, 'x) world_scheme) res" where
  "invoke_close U i Empty err w = Exc Bad_function_call w"
| "invoke_close U i No_op err w = Ok () w"
| "invoke_close U i (User c) err w =
     run_close U c err (on_session i (\<lambda>s. s\<lparr>notified := notified s @ [err]\<rparr>) w)"

fun invoke_message ::
    "('m, 'c, ('m, 'c, 'x) world_scheme) user_code \<Rightarrow> sid \<Rightarrow> 'm func \<Rightarrow> bytes
     \<Rightarrow> ('m, 'c, 'x) world_scheme \<Rightarrow> (unit, ('m, 'c, 'x) world_scheme) res" where
  "invoke_message U i Empty message w = Exc Bad_function_call w"
| "invoke_message U i No_op message w = Ok () w"
| "invoke_message U i (User m) message w =
     run_message U m message (on_session i (\<lambda>s. s\<lparr>delivered := delivered s @ [message]\<rparr>) w)"

section \<open>Methods that run user code\<close>

definition set_onclose ::
    "('m, 'c, ('m, 'c, 'x) world_scheme) user_code \<Rightarrow> sid \<Rightarrow> 'c func
     \<Rightarrow> ('m, 'c, 'x) world_scheme \<Rightarrow> (unit, ('m, 'c, 'x) world_scheme) res" where
  "set_onclose U i handler w =
     (if onclose (heap w i) \<noteq> Empty then Exc (Runtime_error ''handler already set'') w
      else
        let w1 = on_session i (\<lambda>s. s\<lparr>onclose := handler\<rparr>) w in
        if \<not> socket_open (heap w1 i)
        then swallow (invoke_close U i (onclose (heap w1 i)) no_error w1)
        else Ok () w1)"

definition close_intern ::
    "('m, 'c, ('m, 'c, 'x) world_scheme) user_code \<Rightarrow> sid \<Rightarrow> error_code
     \<Rightarrow> ('m, 'c, 'x) world_scheme \<Rightarrow> (unit, ('m, 'c, 'x) world_scheme) res" where
  "close_intern U i err w =
     (if socket_open (heap w i) then
        let w1 = on_session i (\<lambda>s. s\<lparr>socket_open := False\<rparr>) w in
        seq (if onclose (heap w1 i) \<noteq> Empty
             then seq (swallow (invoke_close U i (onclose (heap w1 i)) err w1))
                      (\<lambda>w2. Ok () (on_session i (\<lambda>s. s\<lparr>onclose := No_op\<rparr>) w2))
             else Ok () w1)
            (\<lambda>w3. Ok () (if onmessage (heap w3 i) \<noteq> Empty
                         then on_session i (\<lambda>s. s\<lparr>onmessage := No_op\<rparr>) w3
                         else w3))
      else Ok () w)"

definition close ::
    "('m, 'c, ('m, 'c, 'x) world_scheme) user_code \<Rightarrow> sid
     \<Rightarrow> ('m, 'c, 'x) world_scheme \<Rightarrow> (unit, ('m, 'c, 'x) world_scheme) res" where
  "close U i w = close_intern U i no_error w"

definition destroy_session ::
    "('m, 'c, ('m, 'c, 'x) world_scheme) user_code \<Rightarrow> sid
     \<Rightarrow> ('m, 'c, 'x) world_scheme \<Rightarrow> (unit, ('m, 'c, 'x) world_scheme) res" where
  "destroy_session U i w = close U i w"

section \<open>Completion handlers\<close>

text \<open>The lambda of \<open>read_header\<close>; \<open>length\<close> is uninitialised before \<open>parse_header\<close> writes it.\<close>

definition on_read_header ::
    "('m, 'c, ('m, 'c, 'x) world_scheme) user_code \<Rightarrow> sid \<Rightarrow> error_code
     \<Rightarrow> ('m, 'c, 'x) world_scheme \<Rightarrow> (unit, ('m, 'c, 'x) world_scheme) res" where
  "on_read_header U i err w =
     (if failed err then close_intern U i err w
      else case parse_header (message_to_read (heap w i)) 0 of
        (False, _) \<Rightarrow> close_intern U i bad_message w
      | (True, len) \<Rightarrow> Ok () (on_session i (read_payload len) w))"

text \<open>The lambda of \<open>read_payload\<close>.\<close>

definition on_read_payload ::
    "('m, 'c, ('m, 'c, 'x) world_scheme) user_code \<Rightarrow> sid \<Rightarrow> error_code
     \<Rightarrow> ('m, 'c, 'x) world_scheme \<Rightarrow> (unit, ('m, 'c, 'x) world_scheme) res" where
  "on_read_payload U i err w =
     (if failed err then close_intern U i err w
      else
        let w1 = on_session i (\<lambda>s. s\<lparr>frames_in := frames_in s @ [payload (message_to_read s)]\<rparr>) w in
        seq (if onmessage (heap w1 i) \<noteq> Empty
             then swallow (invoke_message U i (onmessage (heap w1 i)) (payload (message_to_read (heap w1 i))) w1)
             else Ok () w1)
            (\<lambda>w2. Ok () (on_session i read_header w2)))"

text \<open>The lambdas of \<open>write_header\<close> and \<open>write_payload\<close>.\<close>

definition on_write_header ::
    "('m, 'c, ('m, 'c, 'x) world_scheme) user_code \<Rightarrow> sid \<Rightarrow> error_code
     \<Rightarrow> ('m, 'c, 'x) world_scheme \<Rightarrow> (unit, ('m, 'c, 'x) world_scheme) res" where
  "on_write_header U i err w =
     (if failed err then close_intern U i err w
      else call_on i header_written w)"

definition on_write_payload ::
    "('m, 'c, ('m, 'c, 'x) world_scheme) user_code \<Rightarrow> sid \<Rightarrow> error_code
     \<Rightarrow> ('m, 'c, 'x) world_scheme \<Rightarrow> (unit, ('m, 'c, 'x) world_scheme) res" where
  "on_write_payload U i err w =
     (if failed err then close_intern U i err w
      else call_on i payload_written w)"

section \<open>Completion of a pending operation\<close>

text \<open>
  The effect of the transfer itself: \<open>data\<close> is what was read into the buffer or written from it.
  A failed read leaves the rest of the buffer as it was.
\<close>

definition overwrite :: "bytes \<Rightarrow> bytes \<Rightarrow> bytes" where
  "overwrite data buf = data @ drop (length data) buf"

fun transfer :: "aop \<Rightarrow> bytes \<Rightarrow> ('m, 'c) session \<Rightarrow> ('m, 'c) session" where
  "transfer Read_header data s =
     (let m = message_to_read s in
      s\<lparr>message_to_read := m\<lparr>header := overwrite data (header m)\<rparr>, wire_in := wire_in s @ data\<rparr>)"
| "transfer (Read_payload n) data s =
     (let m = message_to_read s in
      s\<lparr>message_to_read := m\<lparr>payload := overwrite data (payload m)\<rparr>, wire_in := wire_in s @ data\<rparr>)"
| "transfer (Write_header b) data s = s\<lparr>wire_out := wire_out s @ data\<rparr>"
| "transfer (Write_payload b) data s = s\<lparr>wire_out := wire_out s @ data\<rparr>"

fun dispatch ::
    "('m, 'c, ('m, 'c, 'x) world_scheme) user_code \<Rightarrow> sid \<Rightarrow> aop \<Rightarrow> error_code
     \<Rightarrow> ('m, 'c, 'x) world_scheme \<Rightarrow> (unit, ('m, 'c, 'x) world_scheme) res" where
  "dispatch U i Read_header err w = on_read_header U i err w"
| "dispatch U i (Read_payload n) err w = on_read_payload U i err w"
| "dispatch U i (Write_header b) err w = on_write_header U i err w"
| "dispatch U i (Write_payload b) err w = on_write_payload U i err w"

text \<open>
  What the asynchronous library promises about a completion. A composed read or write goes on
  until its buffer is used up or an error occurs: success means the whole buffer was transferred,
  an error that it was not. A write transfers a prefix of its buffer. An operation started on a
  closed socket fails without a transfer.
\<close>

fun io_result :: "aop \<times> bool \<Rightarrow> error_code \<Rightarrow> bytes \<Rightarrow> bool" where
  "io_result (op, live) err data \<longleftrightarrow>
     (if failed err then length data < op_size op \<and> (live \<or> data = [])
      else live \<and> length data = op_size op)
     \<and> (case op of Write_header b \<Rightarrow> prefix data b | Write_payload b \<Rightarrow> prefix data b | _ \<Rightarrow> True)"

definition take_op :: "nat \<Rightarrow> ('m, 'c) session \<Rightarrow> ('m, 'c) session" where
  "take_op k s = s\<lparr>pending := remove_at k (pending s)\<rparr>"

definition complete ::
    "('m, 'c, ('m, 'c, 'x) world_scheme) user_code \<Rightarrow> sid \<Rightarrow> nat \<Rightarrow> error_code \<Rightarrow> bytes
     \<Rightarrow> ('m, 'c, 'x) world_scheme \<Rightarrow> (unit, ('m, 'c, 'x) world_scheme) res" where
  "complete U i k err data w =
     (let op = fst (pending (heap w i) ! k) in
      dispatch U i op err
        (on_session i (\<lambda>s. transfer op data (take_op k s)) w))"

end
