(* ===== verification/Session_Inv.thy ===== *)
theory Session_Inv
  imports Asio_Session
begin

text \<open>
  The invariants of a session and of the store of sessions: what is on the wire is the stream of
  frames of the accepted messages, the reader is in step with the reference decoder, a user's
  close handler runs at most once. Every method and every completion keeps them, whatever the
  user code does, provided the user code keeps them itself (the contract \<open>session_user\<close>).
\<close>

named_theorems session_defs

section \<open>Updates of one session in the store\<close>

lemma heap_on_session [simp]:
  "heap (on_session i f w) = (heap w)(i := f (heap w i))"
  by (simp add: on_session_def)

lemma next_sid_on_session [simp]: "next_sid (on_session i f w) = next_sid w"
  by (simp add: on_session_def)

lemma on_session_compose [simp]:
  "on_session i f (on_session i g w) = on_session i (\<lambda>s. f (g s)) w"
  by (simp add: on_session_def)

lemma on_session_id: "f (heap w i) = heap w i \<Longrightarrow> on_session i f w = w"
  by (simp add: on_session_def)

lemma call_on_Ok: "f (heap w i) = Ok a s \<Longrightarrow> call_on i f w = Ok a (on_session i (\<lambda>_. s) w)"
  by (simp add: call_on_def)

lemma call_on_Exc: "f (heap w i) = Exc e s \<Longrightarrow> call_on i f w = Exc e (on_session i (\<lambda>_. s) w)"
  by (simp add: call_on_def)

lemma call_on_Undef [simp]: "call_on i f w = Undef \<longleftrightarrow> f (heap w i) = Undef"
  by (cases "f (heap w i)") (simp_all add: call_on_def)

section \<open>The writer\<close>

abbreviation stream :: "bytes list \<Rightarrow> bytes" where
  "stream cs \<equiv> concat (map frame_of cs)"

abbreviation message_of :: "bytes \<Rightarrow> com_message" where
  "message_of c \<equiv> \<lparr>header = header_of c, payload = c\<rparr>"

definition writes :: "('m, 'c) session \<Rightarrow> (aop \<times> bool) list" where
  "writes s = filter (\<lambda>p. \<not> is_read (fst p)) (pending s)"

definition reads :: "('m, 'c) session \<Rightarrow> (aop \<times> bool) list" where
  "reads s = filter (\<lambda>p. is_read (fst p)) (pending s)"

text \<open>
  The writer is idle with everything accepted on the wire; or it has one write under way, of the
  header or of the payload of the message at the front of its queue; or it has stopped in that
  message, on a closed socket.
\<close>

inductive writer_inv :: "('m, 'c) session \<Rightarrow> bool" where
  idle: "writes s = [] \<Longrightarrow> write_queue s = [] \<Longrightarrow> wire_out s = stream (accepted s)
    \<Longrightarrow> \<forall>c \<in> set (accepted s). valid_content c \<Longrightarrow> writer_inv s"
| writing_header: "writes s = [(Write_header (header_of c), live)] \<Longrightarrow> (socket_open s \<longrightarrow> live)
    \<Longrightarrow> accepted s = sent @ c # cs \<Longrightarrow> write_queue s = message_of c # map message_of cs
    \<Longrightarrow> wire_out s = stream sent
    \<Longrightarrow> \<forall>c \<in> set (accepted s). valid_content c \<Longrightarrow> writer_inv s"
| writing_payload: "writes s = [(Write_payload c, live)] \<Longrightarrow> (socket_open s \<longrightarrow> live)
    \<Longrightarrow> accepted s = sent @ c # cs \<Longrightarrow> write_queue s = message_of c # map message_of cs
    \<Longrightarrow> wire_out s = stream sent @ header_of c
    \<Longrightarrow> \<forall>c \<in> set (accepted s). valid_content c \<Longrightarrow> writer_inv s"
| stopped: "writes s = [] \<Longrightarrow> \<not> socket_open s
    \<Longrightarrow> accepted s = sent @ c # cs \<Longrightarrow> write_queue s = message_of c # map message_of cs
    \<Longrightarrow> prefix part (frame_of c) \<Longrightarrow> wire_out s = stream sent @ part
    \<Longrightarrow> \<forall>c \<in> set (accepted s). valid_content c \<Longrightarrow> writer_inv s"

lemma writes_update [simp]:
  "writes (s\<lparr>socket_open := v0\<rparr>) = writes s"
  "writes (s\<lparr>message_to_read := v1\<rparr>) = writes s"
  "writes (s\<lparr>write_queue := v2\<rparr>) = writes s"
  "writes (s\<lparr>onmessage := v3\<rparr>) = writes s"
  "writes (s\<lparr>onclose := v4\<rparr>) = writes s"
  "writes (s\<lparr>accepted := v5\<rparr>) = writes s"
  "writes (s\<lparr>wire_out := v6\<rparr>) = writes s"
  "writes (s\<lparr>wire_in := v7\<rparr>) = writes s"
  "writes (s\<lparr>frames_in := v8\<rparr>) = writes s"
  "writes (s\<lparr>delivered := v9\<rparr>) = writes s"
  "writes (s\<lparr>notified := v10\<rparr>) = writes s"
  by (simp_all add: writes_def)

lemma reads_update [simp]:
  "reads (s\<lparr>socket_open := v0\<rparr>) = reads s"
  "reads (s\<lparr>message_to_read := v1\<rparr>) = reads s"
  "reads (s\<lparr>write_queue := v2\<rparr>) = reads s"
  "reads (s\<lparr>onmessage := v3\<rparr>) = reads s"
  "reads (s\<lparr>onclose := v4\<rparr>) = reads s"
  "reads (s\<lparr>accepted := v5\<rparr>) = reads s"
  "reads (s\<lparr>wire_out := v6\<rparr>) = reads s"
  "reads (s\<lparr>wire_in := v7\<rparr>) = reads s"
  "reads (s\<lparr>frames_in := v8\<rparr>) = reads s"
  "reads (s\<lparr>delivered := v9\<rparr>) = reads s"
  "reads (s\<lparr>notified := v10\<rparr>) = reads s"
  by (simp_all add: reads_def)

text \<open>The invariant looks at six fields only, and stays true when the socket is closed.\<close>

lemma writer_inv_cong:
  assumes "writer_inv s"
    and eq: "writes t = writes s" "write_queue t = write_queue s" "wire_out t = wire_out s"
      "accepted t = accepted s" and op: "socket_open t \<Longrightarrow> socket_open s"
  shows "writer_inv t"
  using assms(1)
proof (cases rule: writer_inv.cases)
  case idle
  then show ?thesis by (intro writer_inv.idle) (simp_all add: eq)
next
  case (writing_header c live sent cs)
  then show ?thesis using op by (intro writer_inv.writing_header [of _ c live sent cs]) (auto simp: eq)
next
  case (writing_payload c live sent cs)
  then show ?thesis using op by (intro writer_inv.writing_payload [of _ c live sent cs]) (auto simp: eq)
next
  case (stopped sent c cs part)
  then show ?thesis using op by (intro writer_inv.stopped [of _ sent c cs part]) (auto simp: eq)
qed

lemma writes_async_start:
  "writes (async_start op s) = writes s @ (if is_read op then [] else [(op, socket_open s)])"
  by (simp add: writes_def async_start_def)

lemma reads_async_start:
  "reads (async_start op s) = reads s @ (if is_read op then [(op, socket_open s)] else [])"
  by (simp add: reads_def async_start_def)

lemma async_start_simps [simp]:
  "socket_open (async_start op s) = socket_open s"
  "message_to_read (async_start op s) = message_to_read s"
  "write_queue (async_start op s) = write_queue s"
  "onmessage (async_start op s) = onmessage s"
  "onclose (async_start op s) = onclose s"
  "accepted (async_start op s) = accepted s"
  "wire_out (async_start op s) = wire_out s"
  "wire_in (async_start op s) = wire_in s"
  "frames_in (async_start op s) = frames_in s"
  "delivered (async_start op s) = delivered s"
  "notified (async_start op s) = notified s"
  by (simp_all add: async_start_def)

lemma writer_inv_new: "writer_inv (asio_session sock)"
  by (rule writer_inv.idle) (simp_all add: asio_session_def writes_def)

lemma send_cases:
  "send m s =
     (if valid_content m
      then let s1 = s\<lparr>write_queue := write_queue s @ [message_of m], accepted := accepted s @ [m]\<rparr>
           in Ok (Suc (length (write_queue s))) (if write_queue s = [] then write_header s1 else s1)
      else Exc (Runtime_error ''invalid message size'') s)"
  by (simp add: send_def Let_def)

lemma writer_inv_send:
  assumes "writer_inv s" shows "res_all writer_inv (send m s)"
proof (cases "valid_content m")
  case False
  then show ?thesis using assms by (simp add: send_cases)
next
  case True
  let ?s1 = "s\<lparr>write_queue := write_queue s @ [message_of m], accepted := accepted s @ [m]\<rparr>"
  from assms have "writer_inv (if write_queue s = [] then write_header ?s1 else ?s1)"
  proof (cases rule: writer_inv.cases)
    case idle
    then show ?thesis using True
      by (intro writer_inv.writing_header [of _ m "socket_open s" "accepted s" "[]"])
        (simp_all add: write_header_def writes_async_start)
  next
    case (writing_header c live sent cs)
    then show ?thesis using True
      by (intro writer_inv.writing_header [of _ c live sent "cs @ [m]"]) (simp_all add: ball_Un)
  next
    case (writing_payload c live sent cs)
    then show ?thesis using True
      by (intro writer_inv.writing_payload [of _ c live sent "cs @ [m]"]) (simp_all add: ball_Un)
  next
    case (stopped sent c cs part)
    then show ?thesis using True
      by (intro writer_inv.stopped [of _ sent c "cs @ [m]" part]) (simp_all add: ball_Un)
  qed
  then show ?thesis using True by (simp add: send_cases Let_def)
qed

section \<open>Taking a completed operation off the pending list\<close>

lemma take_op_simps [simp]:
  "socket_open (take_op k s) = socket_open s"
  "message_to_read (take_op k s) = message_to_read s"
  "write_queue (take_op k s) = write_queue s"
  "onmessage (take_op k s) = onmessage s"
  "onclose (take_op k s) = onclose s"
  "accepted (take_op k s) = accepted s"
  "wire_out (take_op k s) = wire_out s"
  "wire_in (take_op k s) = wire_in s"
  "frames_in (take_op k s) = frames_in s"
  "delivered (take_op k s) = delivered s"
  "notified (take_op k s) = notified s"
  by (simp_all add: take_op_def)

lemma take_write:
  assumes "k < length (pending s)" "\<not> is_read (fst (pending s ! k))" "writes s = [x]"
  shows "pending s ! k = x" "writes (take_op k s) = []"
  using assms by (auto simp: writes_def take_op_def filter_remove_at_single
      intro: filter_eq_singleton_nth)

lemma take_write_reads:
  "k < length (pending s) \<Longrightarrow> \<not> is_read (fst (pending s ! k)) \<Longrightarrow> reads (take_op k s) = reads s"
  by (simp add: reads_def take_op_def filter_remove_at_other)

lemma take_read:
  assumes "k < length (pending s)" "is_read (fst (pending s ! k))" "reads s = [x]"
  shows "pending s ! k = x" "reads (take_op k s) = []"
  using assms by (auto simp: reads_def take_op_def filter_remove_at_single
      intro: filter_eq_singleton_nth)

lemma take_read_writes:
  "k < length (pending s) \<Longrightarrow> is_read (fst (pending s ! k)) \<Longrightarrow> writes (take_op k s) = writes s"
  by (simp add: writes_def take_op_def filter_remove_at_other)

lemma no_write_pending:
  "writes s = [] \<Longrightarrow> k < length (pending s) \<Longrightarrow> is_read (fst (pending s ! k))"
  using filter_no_match [of "\<lambda>p. \<not> is_read (fst p)" "pending s" k] by (simp add: writes_def)

lemma no_read_pending:
  "reads s = [] \<Longrightarrow> k < length (pending s) \<Longrightarrow> \<not> is_read (fst (pending s ! k))"
  using filter_no_match [of "\<lambda>p. is_read (fst p)" "pending s" k] by (simp add: reads_def)

lemma io_write_all:
  "io_result p err data \<Longrightarrow> fst p = Write_header b \<or> fst p = Write_payload b \<Longrightarrow> \<not> failed err \<Longrightarrow> data = b"
  by (cases p) (auto simp: prefix_def)

text \<open>A successful write moves the writer on; a failed one stops it inside the front message.\<close>

lemma header_write_done:
  assumes inv: "writer_inv s" and k: "k < length (pending s)"
    and op: "fst (pending s ! k) = Write_header b"
    and io: "io_result (pending s ! k) err data" and ok: "\<not> failed err"
  shows "\<exists>t. header_written (transfer (Write_header b) data (take_op k s)) = Ok () t \<and> writer_inv t"
  using inv
proof (cases rule: writer_inv.cases)
  case (writing_header c live sent cs)
  have nr: "\<not> is_read (fst (pending s ! k))" by (simp add: op)
  note tk = take_write [OF k nr writing_header(1)]
  have "b = header_of c" using tk(1) op by simp
  moreover have "data = b" using io_write_all [OF io _ ok] op by simp
  ultimately show ?thesis using writing_header tk
    by (auto simp: header_written_def write_payload_def writes_async_start
        intro!: writer_inv.writing_payload [of _ c _ sent cs])
qed (use k op take_write [OF k] no_write_pending [OF _ k] in auto)

lemma payload_write_done:
  assumes inv: "writer_inv s" and k: "k < length (pending s)"
    and op: "fst (pending s ! k) = Write_payload b"
    and io: "io_result (pending s ! k) err data" and ok: "\<not> failed err"
  shows "\<exists>t. payload_written (transfer (Write_payload b) data (take_op k s)) = Ok () t \<and> writer_inv t"
  using inv
proof (cases rule: writer_inv.cases)
  case (writing_payload c live sent cs)
  have nr: "\<not> is_read (fst (pending s ! k))" by (simp add: op)
  note tk = take_write [OF k nr writing_payload(1)]
  have b: "b = c" using tk(1) op by simp
  have d: "data = b" using io_write_all [OF io _ ok] op by simp
  let ?t = "transfer (Write_payload b) data (take_op k s)"
  have wo: "wire_out ?t = stream (sent @ [c])"
    using writing_payload by (simp add: b d frame_of_def)
  have "writer_inv (write_header (?t\<lparr>write_queue := map message_of cs\<rparr>))"
  proof (cases cs)
    case Nil
    then show ?thesis using writing_payload tk wo
      by (intro writer_inv.idle) (simp_all add: write_header_def)
  next
    case (Cons c' cs')
    then show ?thesis using writing_payload tk wo
      by (intro writer_inv.writing_header [of _ c' "socket_open s" "sent @ [c]" cs'])
        (simp_all add: write_header_def writes_async_start)
  qed
  then show ?thesis using writing_payload by (simp add: payload_written_def)
qed (use k op take_write [OF k] no_write_pending [OF _ k] in auto)

lemma write_failed:
  assumes inv: "writer_inv s" and k: "k < length (pending s)"
    and nr: "\<not> is_read (fst (pending s ! k))"
    and io: "io_result (pending s ! k) err data" and bad: "failed err"
  shows "writer_inv (transfer (fst (pending s ! k)) data (take_op k s)\<lparr>socket_open := False\<rparr>)"
  using inv
proof (cases rule: writer_inv.cases)
  case (writing_header c live sent cs)
  note tk = take_write [OF k nr writing_header(1)]
  have "prefix data (header_of c)" using io tk(1) by simp
  then have "prefix data (frame_of c)" by (simp add: frame_of_def prefix_prefix)
  then show ?thesis using writing_header tk
    by (intro writer_inv.stopped [of _ sent c cs data]) simp_all
next
  case (writing_payload c live sent cs)
  note tk = take_write [OF k nr writing_payload(1)]
  have "prefix data c" using io tk(1) by simp
  then show ?thesis using writing_payload tk
    by (intro writer_inv.stopped [of _ sent c cs "header_of c @ data"]) (simp_all add: frame_of_def)
qed (use k nr no_write_pending [OF _ k] in auto)

lemma writer_inv_prefix:
  "writer_inv s \<Longrightarrow> prefix (wire_out s) (stream (accepted s)) \<and> (\<forall>c \<in> set (accepted s). valid_content c)"
  by (cases rule: writer_inv.cases) (auto simp: frame_of_def prefix_def)

section \<open>The reader\<close>

text \<open>
  Before a message handler is set nothing is read. Afterwards the reader has one read under way,
  of a header or of the payload whose header it has just parsed; or its message handler is running
  (\<open>busy\<close>) and the next read is not started yet; or it has stopped on a closed socket, at bytes
  that are not a frame.
\<close>

inductive reader_inv :: "bool \<Rightarrow> ('m, 'c) session \<Rightarrow> bool" where
  unset: "reads s = [] \<Longrightarrow> onmessage s = Empty \<Longrightarrow> wire_in s = [] \<Longrightarrow> frames_in s = []
    \<Longrightarrow> length (header (message_to_read s)) = 4 \<Longrightarrow> reader_inv False s"
| handling: "reads s = [] \<Longrightarrow> onmessage s \<noteq> Empty \<Longrightarrow> wire_in s = stream (frames_in s)
    \<Longrightarrow> length (header (message_to_read s)) = 4
    \<Longrightarrow> \<forall>c \<in> set (frames_in s). valid_content c \<Longrightarrow> reader_inv True s"
| reading_header: "reads s = [(Read_header, live)] \<Longrightarrow> (socket_open s \<longrightarrow> live) \<Longrightarrow> onmessage s \<noteq> Empty
    \<Longrightarrow> wire_in s = stream (frames_in s) \<Longrightarrow> length (header (message_to_read s)) = 4
    \<Longrightarrow> \<forall>c \<in> set (frames_in s). valid_content c \<Longrightarrow> reader_inv False s"
| reading_payload: "reads s = [(Read_payload (unat n), live)] \<Longrightarrow> (socket_open s \<longrightarrow> live) \<Longrightarrow> onmessage s \<noteq> Empty
    \<Longrightarrow> parse_header (message_to_read s) 0 = (True, n)
    \<Longrightarrow> length (payload (message_to_read s)) = unat n
    \<Longrightarrow> wire_in s = stream (frames_in s) @ header (message_to_read s)
    \<Longrightarrow> length (header (message_to_read s)) = 4
    \<Longrightarrow> \<forall>c \<in> set (frames_in s). valid_content c \<Longrightarrow> reader_inv False s"
| stopped: "reads s = [] \<Longrightarrow> onmessage s \<noteq> Empty \<Longrightarrow> \<not> socket_open s
    \<Longrightarrow> parse_frame part = None \<Longrightarrow> wire_in s = stream (frames_in s) @ part
    \<Longrightarrow> length (header (message_to_read s)) = 4
    \<Longrightarrow> \<forall>c \<in> set (frames_in s). valid_content c \<Longrightarrow> reader_inv False s"

inductive_cases handlingE: "reader_inv True s"

lemma reader_inv_cong:
  assumes "reader_inv b s"
    and eq: "reads t = reads s" "wire_in t = wire_in s" "frames_in t = frames_in s"
      "message_to_read t = message_to_read s"
    and om: "onmessage t = Empty \<longleftrightarrow> onmessage s = Empty" and op: "socket_open t \<Longrightarrow> socket_open s"
  shows "reader_inv b t"
  using assms(1)
proof (cases rule: reader_inv.cases)
  case unset
  then show ?thesis using om by (simp add: eq reader_inv.unset)
next
  case handling
  then show ?thesis using om by (simp add: eq reader_inv.handling)
next
  case (reading_header live)
  then show ?thesis using om op by (simp add: reader_inv.reading_header [of _ live] eq)
next
  case (reading_payload n live)
  then show ?thesis using om op by (simp add: reader_inv.reading_payload [of _ n live] eq)
next
  case (stopped part)
  then show ?thesis using om op by (simp add: eq) (rule reader_inv.stopped [of _ part]; auto simp: eq)
qed

lemma reader_inv_new: "reader_inv False (asio_session sock)"
  by (rule reader_inv.unset) (simp_all add: asio_session_def reads_def com_message_default_def)

lemma parse_header_cong: "header m = header m' \<Longrightarrow> parse_header m len = parse_header m' len"
  by (simp add: parse_header_def)

lemma length_resize [simp]: "length (resize n b) = n"
  by (simp add: resize_def)

lemma reader_inv_set_onmessage:
  assumes "reader_inv b s" "handler \<noteq> Empty"
  shows "res_all (reader_inv b) (set_onmessage handler s)"
proof (cases "onmessage s = Empty")
  case True
  with assms(1) have "reader_inv b (read_header (s\<lparr>onmessage := handler\<rparr>))"
  proof (cases rule: reader_inv.cases)
    case unset
    then show ?thesis using assms(2)
      by (auto intro!: reader_inv.reading_header simp: read_header_def reads_async_start)
  qed simp_all
  then show ?thesis using True by (simp add: set_onmessage_def)
qed (simp add: set_onmessage_def assms(1))

lemma reader_resumes: "reader_inv True s \<Longrightarrow> reader_inv False (read_header s)"
  by (erule handlingE) (auto intro!: reader_inv.reading_header simp: read_header_def reads_async_start)

text \<open>
  A header arrives: it is parsed and the payload read is started, or the session is closed on a
  bad header. A payload arrives: it is handed on. A read fails: the reader stops.
\<close>

lemma header_read_done:
  assumes inv: "reader_inv b s" and k: "k < length (pending s)"
    and op: "fst (pending s ! k) = Read_header"
    and io: "io_result (pending s ! k) err data" and ok: "\<not> failed err"
  defines "t \<equiv> transfer Read_header data (take_op k s)"
  shows "\<not> b" and "parse_header (message_to_read t) 0 = (True, n) \<Longrightarrow> reader_inv False (read_payload n t)"
    and "parse_header (message_to_read t) 0 = (False, n) \<Longrightarrow> reader_inv False (t\<lparr>socket_open := False\<rparr>)"
proof -
  have r: "is_read (fst (pending s ! k))" by (simp add: op)
  have inv': "\<not> b \<and> onmessage s \<noteq> Empty \<and> reads (take_op k s) = [] \<and> wire_in s = stream (frames_in s)
      \<and> length (header (message_to_read s)) = 4 \<and> (\<forall>c \<in> set (frames_in s). valid_content c)"
    using inv
  proof (cases rule: reader_inv.cases)
    case (reading_header live)
    then show ?thesis using take_read [OF k r reading_header(2)] by simp
  qed (use k op r take_read [OF k r] no_read_pending [OF _ k] in auto)
  have d: "length data = 4" using io ok op by (cases "pending s ! k") auto
  have h: "header (message_to_read t) = data" "reads t = []" "onmessage t \<noteq> Empty"
    "wire_in t = stream (frames_in t) @ data" "\<forall>c \<in> set (frames_in t). valid_content c"
    using inv' d by (simp_all add: t_def Let_def overwrite_def)
  show "\<not> b" using inv' by simp
  show "reader_inv False (read_payload n t)" if p: "parse_header (message_to_read t) 0 = (True, n)"
  proof (rule reader_inv.reading_payload [of _ n "socket_open t"])
    show "parse_header (message_to_read (read_payload n t)) 0 = (True, n)"
      using p by (subst parse_header_cong [of _ "message_to_read t"]) (simp_all add: read_payload_def Let_def)
  qed (use h d in \<open>simp_all add: read_payload_def Let_def reads_async_start\<close>)
  show "reader_inv False (t\<lparr>socket_open := False\<rparr>)" if p: "parse_header (message_to_read t) 0 = (False, n)"
  proof (rule reader_inv.stopped [of _ data])
    have "parse_header \<lparr>header = data, payload = []\<rparr> 0 = (False, n)"
      using p by (subst parse_header_cong [of _ "message_to_read t"]) (simp_all add: h)
    then show "parse_frame data = None"
      using d parse_frame_bad_header [of data n "[]"] by simp
  qed (use h d in simp_all)
qed

lemma payload_read_done:
  assumes inv: "reader_inv b s" and k: "k < length (pending s)"
    and op: "fst (pending s ! k) = Read_payload m"
    and io: "io_result (pending s ! k) err data" and ok: "\<not> failed err"
  defines "t \<equiv> transfer (Read_payload m) data (take_op k s)"
  shows "\<not> b" and "payload (message_to_read t) = data"
    and "reader_inv True (t\<lparr>frames_in := frames_in t @ [payload (message_to_read t)]\<rparr>)"
proof -
  have r: "is_read (fst (pending s ! k))" by (simp add: op)
  have d: "length data = m" using io ok op by (cases "pending s ! k") auto
  obtain n where inv': "\<not> b" "onmessage s \<noteq> Empty" "reads (take_op k s) = []" "m = unat n"
      "parse_header (message_to_read s) 0 = (True, n)" "length (payload (message_to_read s)) = m"
      "wire_in s = stream (frames_in s) @ header (message_to_read s)"
      "length (header (message_to_read s)) = 4" "\<forall>c \<in> set (frames_in s). valid_content c"
    using inv
  proof (cases rule: reader_inv.cases)
    case (reading_payload n live)
    then show ?thesis using take_read [OF k r reading_payload(2)] op that [of n] by simp
  qed (use k op r take_read [OF k r] no_read_pending [OF _ k] in auto)
  show "\<not> b" by fact
  show p: "payload (message_to_read t) = data"
    using inv' d by (simp add: t_def Let_def overwrite_def)
  have v: "valid_content data" "header (message_to_read s) = header_of data"
    using parse_header_True(3) [OF inv'(8,5), of data] d inv'(4) by auto
  show "reader_inv True (t\<lparr>frames_in := frames_in t @ [payload (message_to_read t)]\<rparr>)"
    unfolding p using inv' v
    by (intro reader_inv.handling) (simp_all add: t_def Let_def frame_of_def)
qed

lemma read_failed:
  assumes inv: "reader_inv b s" and k: "k < length (pending s)"
    and r: "is_read (fst (pending s ! k))"
    and io: "io_result (pending s ! k) err data" and bad: "failed err"
  shows "\<not> b" and "reader_inv False (transfer (fst (pending s ! k)) data (take_op k s)\<lparr>socket_open := False\<rparr>)"
proof -
  have "\<not> b \<and> reader_inv False (transfer (fst (pending s ! k)) data (take_op k s)\<lparr>socket_open := False\<rparr>)"
    using inv
  proof (cases rule: reader_inv.cases)
    case (reading_header live)
    note tk = take_read [OF k r reading_header(2)]
    have "length data < 4" using io tk(1) bad by simp
    then show ?thesis using reading_header tk
      by (auto intro!: reader_inv.stopped [of _ data] simp: Let_def overwrite_def parse_frame_short)
  next
    case (reading_payload n live)
    note tk = take_read [OF k r reading_payload(2)]
    let ?h = "header (message_to_read s)"
    have "length data < unat n" using io tk(1) bad by simp
    moreover have "parse_header \<lparr>header = ?h, payload = []\<rparr> 0 = (True, n)"
      using reading_payload by (subst parse_header_cong [of _ "message_to_read s"]) simp_all
    ultimately have "parse_frame (?h @ data) = None"
      using reading_payload by (intro parse_frame_incomplete) simp_all
    then show ?thesis using reading_payload tk
      by (auto intro!: reader_inv.stopped [of _ "?h @ data"] simp: Let_def)
  qed (use k r no_read_pending [OF _ k] in auto)
  then show "\<not> b" and "reader_inv False (transfer (fst (pending s ! k)) data (take_op k s)\<lparr>socket_open := False\<rparr>)"
    by auto
qed

text \<open>The reader is in step with the reference decoder.\<close>

lemma parse_frame_header_only:
  "length h = 4 \<Longrightarrow> parse_header \<lparr>header = h, payload = []\<rparr> 0 = (True, n) \<Longrightarrow> n > 0 \<Longrightarrow> parse_frame h = None"
  using parse_frame_incomplete [of h n "[]"] by (simp add: word_less_nat_alt)

lemma reader_inv_decodes:
  assumes "reader_inv b s"
  shows "fst (decode_all parse_frame (wire_in s)) = frames_in s \<and> (\<forall>c \<in> set (frames_in s). valid_content c)"
  using assms
proof (cases rule: reader_inv.cases)
  case unset
  then show ?thesis by (simp add: decode_all_None wire.dec_Nil)
next
  case (reading_payload n live)
  let ?h = "header (message_to_read s)"
  have "parse_header \<lparr>header = ?h, payload = []\<rparr> 0 = (True, n)"
    using reading_payload by (subst parse_header_cong [of _ "message_to_read s"]) simp_all
  moreover have "n > 0" using parse_header_True(1) reading_payload by blast
  ultimately have "parse_frame ?h = None"
    using reading_payload by (intro parse_frame_header_only)
  then show ?thesis using reading_payload by (simp add: wire.decode_all_partial)
qed (simp_all add: wire.decode_all_concat wire.decode_all_partial)

end
