(* ===== verification/Session_Safety.thy ===== *)
theory Session_Safety
  imports Session_Inv
begin

text \<open>
  The invariant of the whole store and its preservation by every method and every completion.
  The user code is a parameter; what it must guarantee is the locale \<open>session_user\<close>: run in a
  state that satisfies the invariant it leaves such a state, and it only lets sessions evolve
  the way the methods do (\<open>grows\<close>).
\<close>

section \<open>Handlers\<close>

text \<open>
  The user's close handler has run at most once, not before the session was closed, and has run
  if it is still installed on a closed session. While a user's message handler is installed it
  has been given every payload received.
\<close>

definition closer_inv :: "('m, 'c) session \<Rightarrow> bool" where
  "closer_inv s \<longleftrightarrow>
     (socket_open s \<longrightarrow> notified s = []) \<and> (onclose s = Empty \<longrightarrow> notified s = [])
     \<and> length (notified s) \<le> 1 \<and> (\<forall>c. \<not> socket_open s \<and> onclose s = User c \<longrightarrow> notified s \<noteq> [])"

definition delivery_inv :: "('m, 'c) session \<Rightarrow> bool" where
  "delivery_inv s \<longleftrightarrow>
     prefix (delivered s) (frames_in s) \<and> (\<forall>m. onmessage s = User m \<longrightarrow> delivered s = frames_in s)"

definition session_inv :: "bool \<Rightarrow> ('m, 'c) session \<Rightarrow> bool" where
  "session_inv b s \<longleftrightarrow> writer_inv s \<and> reader_inv b s \<and> closer_inv s \<and> delivery_inv s"

lemma session_inv_D:
  assumes "session_inv b s"
  shows "writer_inv s" "reader_inv b s" "closer_inv s" "delivery_inv s"
  using assms by (simp_all add: session_inv_def)

text \<open>The store: \<open>B\<close> is the set of sessions whose message handler is running.\<close>

definition store_inv :: "sid set \<Rightarrow> ('m, 'c, 'x) world_scheme \<Rightarrow> bool" where
  "store_inv B w \<longleftrightarrow> (\<forall>i. session_inv (i \<in> B) (heap w i)) \<and> (\<forall>i \<in> B. i < next_sid w)"

section \<open>How sessions evolve\<close>

definition session_grows :: "('m, 'c) session \<Rightarrow> ('m, 'c) session \<Rightarrow> bool" where
  "session_grows s t \<longleftrightarrow>
     (socket_open t \<longrightarrow> socket_open s)
     \<and> prefix (accepted s) (accepted t) \<and> prefix (wire_out s) (wire_out t)
     \<and> prefix (wire_in s) (wire_in t) \<and> prefix (frames_in s) (frames_in t)
     \<and> prefix (delivered s) (delivered t) \<and> prefix (notified s) (notified t)
     \<and> (onclose s \<noteq> Empty \<longrightarrow> onclose t \<noteq> Empty) \<and> (onmessage s \<noteq> Empty \<longrightarrow> onmessage t \<noteq> Empty)
     \<and> (onmessage s = No_op \<longrightarrow> onmessage t = No_op \<and> delivered t = delivered s)
     \<and> (onclose s = No_op \<longrightarrow> onclose t = No_op \<and> notified t = notified s)"

definition grows :: "('m, 'c, 'x) world_scheme \<Rightarrow> ('m, 'c, 'x) world_scheme \<Rightarrow> bool" where
  "grows w w' \<longleftrightarrow> next_sid w \<le> next_sid w' \<and> (\<forall>i < next_sid w. session_grows (heap w i) (heap w' i))"

lemma session_grows_refl [simp]: "session_grows s s"
  by (simp add: session_grows_def)

lemma session_grows_trans: "session_grows s t \<Longrightarrow> session_grows t u \<Longrightarrow> session_grows s u"
  unfolding session_grows_def
  by (elim conjE, intro conjI; (erule (1) prefix_order.trans)?; simp)

lemma grows_refl [simp]: "grows w w"
  by (simp add: grows_def)

lemma grows_trans: "grows w w' \<Longrightarrow> grows w' w'' \<Longrightarrow> grows w w''"
  unfolding grows_def by (meson order_less_le_trans order_trans session_grows_trans)

lemma grows_on_session: "session_grows (heap w i) (f (heap w i)) \<Longrightarrow> grows w (on_session i f w)"
  by (simp add: grows_def)

text \<open>Both at once: the invariant holds afterwards and the sessions have evolved properly.\<close>

definition keeps :: "sid set \<Rightarrow> ('m, 'c, 'x) world_scheme \<Rightarrow> ('m, 'c, 'x) world_scheme \<Rightarrow> bool" where
  "keeps B w w' \<longleftrightarrow> store_inv B w' \<and> grows w w'"

lemma keeps_inv: "keeps B w w' \<Longrightarrow> store_inv B w'"
  by (simp add: keeps_def)

lemma keeps_trans: "grows w w' \<Longrightarrow> keeps B w' w'' \<Longrightarrow> keeps B w w''"
  by (auto simp: keeps_def intro: grows_trans)

lemma res_keeps_trans: "grows w w' \<Longrightarrow> res_all (keeps B w') r \<Longrightarrow> res_all (keeps B w) r"
  by (erule res_all_mono) (rule keeps_trans)

lemma keeps_refl: "store_inv B w \<Longrightarrow> keeps B w w"
  by (simp add: keeps_def)

lemma store_invD: "store_inv B w \<Longrightarrow> session_inv (i \<in> B) (heap w i)"
  by (simp add: store_inv_def)

lemma store_inv_upd:
  assumes "store_inv B w" "session_inv (i \<in> B') (f (heap w i))"
    and "\<And>j. j \<noteq> i \<Longrightarrow> j \<in> B' \<longleftrightarrow> j \<in> B" and "i \<in> B' \<Longrightarrow> i < next_sid w"
  shows "store_inv B' (on_session i f w)"
proof -
  have "session_inv (j \<in> B') (heap (on_session i f w) j)" for j
    using assms(1,2) assms(3) [of j] by (cases "j = i") (auto simp: store_inv_def)
  moreover have "j < next_sid w" if "j \<in> B'" for j
    using that assms(1,3,4) by (cases "j = i") (auto simp: store_inv_def)
  ultimately show ?thesis by (simp add: store_inv_def)
qed

lemma keeps_upd:
  assumes "store_inv B w" "session_inv (i \<in> B) (f (heap w i))" "session_grows (heap w i) (f (heap w i))"
  shows "keeps B w (on_session i f w)"
  using assms store_inv_upd [OF assms(1), of i B f] by (auto simp: keeps_def store_inv_def intro: grows_on_session)

lemma res_keeps_call_on:
  assumes "store_inv B w"
    and "res_all (\<lambda>s. session_inv (i \<in> B) s \<and> session_grows (heap w i) s) (f (heap w i))"
  shows "res_all (keeps B w) (call_on i f w)"
  using assms(2) by (cases "f (heap w i)") (simp_all add: call_on_def keeps_upd [OF assms(1)])

section \<open>Methods that run no user code\<close>

lemma session_inv_new: "session_inv False (asio_session sock)"
  by (simp add: session_inv_def writer_inv_new reader_inv_new)
    (simp add: closer_inv_def delivery_inv_def asio_session_def)

lemma create_session_keeps:
  "store_inv B w \<Longrightarrow> res_all (keeps B w) (create_session sock w)"
  using session_inv_new [of sock]
  by (auto simp: create_session_def keeps_def store_inv_def grows_def less_Suc_eq)

lemma write_header_simps [simp]:
  "socket_open (write_header s) = socket_open s" "message_to_read (write_header s) = message_to_read s"
  "write_queue (write_header s) = write_queue s" "onmessage (write_header s) = onmessage s"
  "onclose (write_header s) = onclose s" "accepted (write_header s) = accepted s"
  "wire_out (write_header s) = wire_out s" "wire_in (write_header s) = wire_in s"
  "frames_in (write_header s) = frames_in s" "delivered (write_header s) = delivered s"
  "notified (write_header s) = notified s" "reads (write_header s) = reads s"
  by (simp_all add: write_header_def reads_async_start split: list.split)

lemma write_payload_simps [simp]:
  "socket_open (write_payload s) = socket_open s" "message_to_read (write_payload s) = message_to_read s"
  "write_queue (write_payload s) = write_queue s" "onmessage (write_payload s) = onmessage s"
  "onclose (write_payload s) = onclose s" "accepted (write_payload s) = accepted s"
  "wire_out (write_payload s) = wire_out s" "wire_in (write_payload s) = wire_in s"
  "frames_in (write_payload s) = frames_in s" "delivered (write_payload s) = delivered s"
  "notified (write_payload s) = notified s" "reads (write_payload s) = reads s"
  by (simp_all add: write_payload_def reads_async_start split: list.split)

text \<open>Changes that leave the fields of an invariant alone.\<close>

lemma closer_inv_cong:
  "closer_inv s \<Longrightarrow> socket_open t = socket_open s \<Longrightarrow> onclose t = onclose s \<Longrightarrow> notified t = notified s
   \<Longrightarrow> closer_inv t"
  by (simp add: closer_inv_def)

lemma delivery_inv_cong:
  "delivery_inv s \<Longrightarrow> onmessage t = onmessage s \<Longrightarrow> delivered t = delivered s \<Longrightarrow> frames_in t = frames_in s
   \<Longrightarrow> delivery_inv t"
  by (simp add: delivery_inv_def)

lemma send_session_inv:
  assumes "session_inv b s"
  shows "res_all (\<lambda>t. session_inv b t \<and> session_grows s t) (send m s)"
proof (cases "valid_content m")
  case True
  let ?s1 = "s\<lparr>write_queue := write_queue s @ [message_of m], accepted := accepted s @ [m]\<rparr>"
  let ?t = "if write_queue s = [] then write_header ?s1 else ?s1"
  have send: "send m s = Ok (Suc (length (write_queue s))) ?t"
    using True by (simp add: send_cases Let_def)
  have "writer_inv ?t" using writer_inv_send [of s m] assms by (simp add: session_inv_def send)
  moreover have "reader_inv b ?t"
    using assms by (auto simp: session_inv_def intro: reader_inv_cong [of b s])
  moreover have "closer_inv ?t" "delivery_inv ?t"
    using assms by (auto simp: session_inv_def intro: closer_inv_cong [of s] delivery_inv_cong [of s])
  moreover have "session_grows s ?t" by (simp add: session_grows_def)
  ultimately show ?thesis by (simp add: send session_inv_def)
next
  case False
  then show ?thesis using assms by (simp add: send_cases)
qed

lemma writes_read_header [simp]: "writes (read_header s) = writes s"
  by (simp add: read_header_def writes_async_start)

lemma read_header_simps [simp]:
  "socket_open (read_header s) = socket_open s" "onmessage (read_header s) = onmessage s"
  "write_queue (read_header s) = write_queue s" "onclose (read_header s) = onclose s"
  "accepted (read_header s) = accepted s" "wire_out (read_header s) = wire_out s"
  "wire_in (read_header s) = wire_in s" "frames_in (read_header s) = frames_in s"
  "delivered (read_header s) = delivered s" "notified (read_header s) = notified s"
  by (simp_all add: read_header_def)

lemma set_onmessage_session_inv:
  assumes "session_inv b s" "handler \<noteq> Empty"
  shows "res_all (\<lambda>t. session_inv b t \<and> session_grows s t) (set_onmessage handler s)"
proof (cases "onmessage s = Empty")
  case True
  let ?t = "read_header (s\<lparr>onmessage := handler\<rparr>)"
  have fr: "frames_in s = []" using assms True by (auto simp: session_inv_def elim: reader_inv.cases)
  have set: "set_onmessage handler s = Ok () ?t" using True by (simp add: set_onmessage_def)
  have "reader_inv b ?t"
    using reader_inv_set_onmessage [of b s handler] assms by (simp add: session_inv_def set)
  moreover have "writer_inv ?t" using assms by (auto simp: session_inv_def intro: writer_inv_cong [of s])
  moreover have "closer_inv ?t" using assms by (auto simp: session_inv_def intro: closer_inv_cong [of s])
  moreover have "delivery_inv ?t" using assms fr by (simp add: session_inv_def delivery_inv_def)
  moreover have "session_grows s ?t" using True assms by (simp add: session_grows_def)
  ultimately show ?thesis by (simp add: set session_inv_def)
qed (simp add: set_onmessage_def assms)

end
