(* ===== verification/User_Code.thy ===== *)
theory User_Code
  imports Session_Safety
begin

text \<open>
  The contract between the library and the code that uses it, and the proof that the library
  keeps the invariant of the store under this contract: first for the methods that call user
  code, then for the completion of a pending operation.
\<close>

section \<open>A session about to be closed\<close>

text \<open>
  When a transfer fails, the reader or the writer has stopped before the socket is closed: only
  the state with the closed socket satisfies the invariant.
\<close>

definition closable :: "bool \<Rightarrow> ('m, 'c) session \<Rightarrow> bool" where
  "closable b s \<longleftrightarrow> writer_inv (s\<lparr>socket_open := False\<rparr>) \<and> reader_inv b (s\<lparr>socket_open := False\<rparr>)
     \<and> closer_inv s \<and> delivery_inv s"

definition closing_inv :: "sid set \<Rightarrow> sid \<Rightarrow> ('m, 'c, 'x) world_scheme \<Rightarrow> bool" where
  "closing_inv B i w \<longleftrightarrow> (\<forall>j. j \<noteq> i \<longrightarrow> session_inv (j \<in> B) (heap w j))
     \<and> closable (i \<in> B) (heap w i) \<and> (\<forall>j \<in> B. j < next_sid w)"

lemma close_closed_socket: "\<not> socket_open s \<Longrightarrow> s\<lparr>socket_open := False\<rparr> = s"
  by (cases s) simp

lemma keep_notified: "notified s = [] \<Longrightarrow> s\<lparr>notified := []\<rparr> = s"
  by (cases s) simp

lemma session_inv_closable: "session_inv b s \<Longrightarrow> closable b s"
  by (auto simp: session_inv_def closable_def intro: writer_inv_cong [of s] reader_inv_cong [of b s])

lemma closable_closed: "closable b s \<Longrightarrow> \<not> socket_open s \<Longrightarrow> session_inv b s"
  by (simp add: session_inv_def closable_def close_closed_socket)

lemma store_inv_closing: "store_inv B w \<Longrightarrow> closing_inv B i w"
  by (simp add: store_inv_def closing_inv_def session_inv_closable)

lemma closing_closed: "closing_inv B i w \<Longrightarrow> \<not> socket_open (heap w i) \<Longrightarrow> store_inv B w"
  unfolding store_inv_def closing_inv_def by (metis closable_closed)

lemma closing_upd:
  assumes "closing_inv B i w" "session_inv (i \<in> B) (f (heap w i))"
  shows "store_inv B (on_session i f w)"
  using assms by (simp add: store_inv_def closing_inv_def)

lemma closing_inv_upd:
  assumes "store_inv B w" "closable (i \<in> B) (f (heap w i))"
  shows "closing_inv B i (on_session i f w)"
  using assms by (simp add: store_inv_def closing_inv_def)

lemma no_more_onclose_keeps:
  assumes "store_inv B w" shows "keeps B w (on_session i (\<lambda>s. s\<lparr>onclose := No_op\<rparr>) w)"
proof (rule keeps_upd [OF assms])
  let ?s = "heap w i"
  have inv: "session_inv (i \<in> B) ?s" by (rule store_invD [OF assms])
  then have "writer_inv (?s\<lparr>onclose := No_op\<rparr>)" "reader_inv (i \<in> B) (?s\<lparr>onclose := No_op\<rparr>)"
    by (auto simp: session_inv_def intro: writer_inv_cong [of ?s] reader_inv_cong [of _ ?s])
  then show "session_inv (i \<in> B) (?s\<lparr>onclose := No_op\<rparr>)"
    using inv by (simp add: session_inv_def closer_inv_def delivery_inv_def)
  show "session_grows ?s (?s\<lparr>onclose := No_op\<rparr>)" by (simp add: session_grows_def)
qed

lemma no_more_onmessage_keeps:
  assumes "store_inv B w" "onmessage (heap w i) \<noteq> Empty"
  shows "keeps B w (on_session i (\<lambda>s. s\<lparr>onmessage := No_op\<rparr>) w)"
proof (rule keeps_upd [OF assms(1)])
  let ?s = "heap w i"
  have inv: "session_inv (i \<in> B) ?s" by (rule store_invD [OF assms(1)])
  then have "writer_inv (?s\<lparr>onmessage := No_op\<rparr>)" "reader_inv (i \<in> B) (?s\<lparr>onmessage := No_op\<rparr>)"
    using assms(2) by (auto simp: session_inv_def intro: writer_inv_cong [of ?s] reader_inv_cong [of _ ?s])
  then show "session_inv (i \<in> B) (?s\<lparr>onmessage := No_op\<rparr>)"
    using inv by (simp add: session_inv_def closer_inv_def delivery_inv_def)
  show "session_grows ?s (?s\<lparr>onmessage := No_op\<rparr>)" by (simp add: session_grows_def)
qed

lemma keeps_then_no_onclose:
  "keeps B w w1 \<Longrightarrow> keeps B w (on_session i (\<lambda>s. s\<lparr>onclose := No_op\<rparr>) w1)"
  using keeps_def keeps_trans no_more_onclose_keeps by blast

lemma keeps_then_no_onmessage:
  "keeps B w w1 \<Longrightarrow> onmessage (heap w1 i) \<noteq> Empty
   \<Longrightarrow> keeps B w (on_session i (\<lambda>s. s\<lparr>onmessage := No_op\<rparr>) w1)"
  using keeps_def keeps_trans no_more_onmessage_keeps by blast

section \<open>The store a close handler is called in\<close>

lemma closable_upd:
  assumes "closable b s" "closer_inv (s\<lparr>socket_open := False, notified := ns\<rparr>)"
  shows "session_inv b (s\<lparr>socket_open := False, notified := ns\<rparr>)"
proof -
  let ?t = "s\<lparr>socket_open := False, notified := ns\<rparr>"
  have "writer_inv ?t" "reader_inv b ?t" "delivery_inv ?t"
    using assms(1) by (auto simp: closable_def intro: writer_inv_cong [of "s\<lparr>socket_open := False\<rparr>"]
        reader_inv_cong [of _ "s\<lparr>socket_open := False\<rparr>"] delivery_inv_cong [of s])
  then show ?thesis using assms(2) by (simp add: session_inv_def)
qed

lemma closing_unnotified: "closing_inv B i w \<Longrightarrow> socket_open (heap w i) \<Longrightarrow> notified (heap w i) = []"
  by (simp add: closing_inv_def closable_def closer_inv_def)

lemma closing_closed_inv:
  assumes "closing_inv B i w" "socket_open (heap w i)" "\<forall>c. onclose (heap w i) \<noteq> User c"
  shows "store_inv B (on_session i (\<lambda>s. s\<lparr>socket_open := False\<rparr>) w)"
proof (rule closing_upd [OF assms(1)])
  show "session_inv (i \<in> B) ((heap w i)\<lparr>socket_open := False\<rparr>)"
    using closable_upd [of "i \<in> B" "heap w i" "[]"] assms closing_unnotified [OF assms(1,2)]
      keep_notified [of "(heap w i)\<lparr>socket_open := False\<rparr>"]
    by (simp add: closer_inv_def closing_inv_def)
qed

lemma closing_notified_inv:
  assumes "closing_inv B i w" "socket_open (heap w i)" "onclose (heap w i) = User c"
  shows "store_inv B (on_session i (\<lambda>s. s\<lparr>socket_open := False, notified := notified s @ [err]\<rparr>) w)"
  by (rule closing_upd [OF assms(1)], rule closable_upd)
    (use assms closing_unnotified [OF assms(1,2)] in \<open>simp_all add: closing_inv_def closer_inv_def\<close>)

lemma set_onclose_upd:
  assumes "session_inv b s" "closer_inv (s\<lparr>onclose := h, notified := ns\<rparr>)"
  shows "session_inv b (s\<lparr>onclose := h, notified := ns\<rparr>)"
proof -
  let ?t = "s\<lparr>onclose := h, notified := ns\<rparr>"
  have "writer_inv ?t" "reader_inv b ?t" "delivery_inv ?t"
    using assms(1) by (auto simp: session_inv_def intro: writer_inv_cong [of s] reader_inv_cong [of _ s]
        delivery_inv_cong [of s])
  then show ?thesis using assms(2) by (simp add: session_inv_def)
qed

lemma unset_unnotified: "store_inv B w \<Longrightarrow> onclose (heap w i) = Empty \<Longrightarrow> notified (heap w i) = []"
  using store_invD [of B w i] by (simp add: session_inv_def closer_inv_def)

lemma set_onclose_open_keeps:
  assumes "store_inv B w" "onclose (heap w i) = Empty" "socket_open (heap w i) \<or> (\<forall>c. h \<noteq> User c)"
  shows "keeps B w (on_session i (\<lambda>s. s\<lparr>onclose := h\<rparr>) w)"
proof (rule keeps_upd [OF assms(1)])
  show "session_inv (i \<in> B) ((heap w i)\<lparr>onclose := h\<rparr>)"
    using set_onclose_upd [of "i \<in> B" "heap w i" "[]" h] store_invD [OF assms(1), of i] assms(3)
      keep_notified [of "(heap w i)\<lparr>onclose := h\<rparr>"] unset_unnotified [OF assms(1,2)]
    by (auto simp: closer_inv_def)
  show "session_grows (heap w i) ((heap w i)\<lparr>onclose := h\<rparr>)"
    using assms(2) by (simp add: session_grows_def)
qed

lemma set_onclose_notified_inv:
  assumes "store_inv B w" "onclose (heap w i) = Empty" "\<not> socket_open (heap w i)"
  shows "store_inv B (on_session i (\<lambda>s. s\<lparr>onclose := User c, notified := notified s @ [err]\<rparr>) w)"
proof (rule store_inv_upd [OF assms(1)])
  show "session_inv (i \<in> B) ((heap w i)\<lparr>onclose := User c, notified := notified (heap w i) @ [err]\<rparr>)"
    by (rule set_onclose_upd [OF store_invD [OF assms(1)]])
      (use assms unset_unnotified [OF assms(1,2)] in \<open>simp add: closer_inv_def\<close>)
qed (use assms(1) in \<open>auto simp: store_inv_def\<close>)

section \<open>The contract of user code\<close>

locale session_user =
  fixes U :: "('m, 'c, ('m, 'c, 'x) world_scheme) user_code"
  assumes run_close_keeps: "store_inv B w \<Longrightarrow> res_all (keeps B w) (run_close U c err w)"
    and run_message_keeps: "store_inv B w \<Longrightarrow> res_all (keeps B w) (run_message U m message w)"
begin

lemma invoke_User_close_keeps:
  assumes "store_inv B (on_session i f w)"
    and "session_grows (heap w i) (f (heap w i))"
    and "on_session i f w = on_session i (\<lambda>s. s\<lparr>notified := notified s @ [err]\<rparr>) w1"
  shows "res_all (keeps B w) (swallow (invoke_close U i (User c) err w1))"
proof -
  have "res_all (keeps B (on_session i f w)) (run_close U c err (on_session i f w))"
    by (rule run_close_keeps [OF assms(1)])
  then have "res_all (keeps B w) (run_close U c err (on_session i f w))"
    by (rule res_keeps_trans [OF grows_on_session [of w i f, OF assms(2)]])
  then show ?thesis by (simp add: assms(3))
qed

lemma set_onclose_keeps:
  assumes inv: "store_inv B w" shows "res_all (keeps B w) (set_onclose U i handler w)"
proof (cases "onclose (heap w i) = Empty")
  case False
  then show ?thesis by (simp add: set_onclose_def keeps_refl [OF inv])
next
  case unset: True
  show ?thesis
  proof (cases "socket_open (heap w i) \<or> (\<forall>c. handler \<noteq> User c)")
    case True
    then show ?thesis using set_onclose_open_keeps [OF inv unset True] unset
      by (cases handler) (auto simp: set_onclose_def Let_def)
  next
    case False
    then obtain c where c: "handler = User c" "\<not> socket_open (heap w i)" by auto
    let ?f = "\<lambda>s. s\<lparr>onclose := User c, notified := notified s @ [no_error]\<rparr>"
    have gr: "session_grows (heap w i) (?f (heap w i))" using unset by (simp add: session_grows_def)
    show ?thesis
      using invoke_User_close_keeps [OF set_onclose_notified_inv [OF inv unset c(2)] gr,
          of no_error "on_session i (\<lambda>s. s\<lparr>onclose := handler\<rparr>) w" c] c unset
      by (simp add: set_onclose_def Let_def)
  qed
qed

lemma close_intern_keeps:
  assumes inv: "closing_inv B i w" shows "res_all (keeps B w) (close_intern U i err w)"
proof (cases "socket_open (heap w i)")
  case False
  then show ?thesis using closing_closed [OF inv] by (simp add: close_intern_def keeps_refl)
next
  case is_open: True
  let ?s = "heap w i" and ?w1 = "on_session i (\<lambda>s. s\<lparr>socket_open := False\<rparr>) w"
  let ?drop = "\<lambda>w3. if onmessage (heap w3 i) \<noteq> Empty then on_session i (\<lambda>s. s\<lparr>onmessage := No_op\<rparr>) w3 else w3"
  let ?r = "if onclose (heap ?w1 i) \<noteq> Empty
     then seq (swallow (invoke_close U i (onclose (heap ?w1 i)) err ?w1))
       (\<lambda>w2. Ok () (on_session i (\<lambda>s. s\<lparr>onclose := No_op\<rparr>) w2))
     else Ok () ?w1"
  have closed: "keeps B w ?w1" if "\<forall>c. onclose ?s \<noteq> User c"
    using closing_closed_inv [OF inv is_open that] grows_on_session [of w i "\<lambda>s. s\<lparr>socket_open := False\<rparr>"]
    by (simp add: keeps_def session_grows_def)
  have "res_all (keeps B w) ?r"
  proof (cases "onclose ?s")
    case Empty
    then show ?thesis using closed by simp
  next
    case No_op
    then have "keeps B w (on_session i (\<lambda>s. s\<lparr>onclose := No_op\<rparr>) ?w1)"
      by (intro keeps_then_no_onclose closed) simp
    then show ?thesis using No_op by simp
  next
    case (User c)
    have "session_grows ?s (?s\<lparr>socket_open := False, notified := notified ?s @ [err]\<rparr>)"
      using User by (simp add: session_grows_def)
    then have "res_all (keeps B w) (swallow (invoke_close U i (User c) err ?w1))"
      by (intro invoke_User_close_keeps [OF closing_notified_inv [OF inv is_open User]]) simp_all
    then have "res_all (keeps B w) (seq (swallow (invoke_close U i (User c) err ?w1))
        (\<lambda>w2. Ok () (on_session i (\<lambda>s. s\<lparr>onclose := No_op\<rparr>) w2)))"
      by (rule res_all_seq) (simp add: keeps_then_no_onclose)
    then show ?thesis by (simp add: User)
  qed
  then have "res_all (keeps B w) (seq ?r (\<lambda>w3. Ok () (?drop w3)))"
    by (rule res_all_seq) (simp add: keeps_then_no_onmessage)
  then show ?thesis using is_open by (simp add: close_intern_def Let_def)
qed

lemma close_keeps: "store_inv B w \<Longrightarrow> res_all (keeps B w) (close U i w)"
  by (simp add: close_def close_intern_keeps store_inv_closing)

end

end
