(* ===== verification/Completion.thy ===== *)
theory Completion
  imports User_Code
begin

text \<open>
  Completions of pending operations: each keeps the invariant of the store under the contract of
  the user code. Then the library as a step relation, API calls interleaved with completions in
  any order, and the invariant of every reachable store.
\<close>

section \<open>The session when an operation has completed\<close>

lemma transfer_simps [simp]:
  "socket_open (transfer op data s) = socket_open s" "write_queue (transfer op data s) = write_queue s"
  "onmessage (transfer op data s) = onmessage s" "onclose (transfer op data s) = onclose s"
  "accepted (transfer op data s) = accepted s" "frames_in (transfer op data s) = frames_in s"
  "delivered (transfer op data s) = delivered s" "notified (transfer op data s) = notified s"
  "reads (transfer op data s) = reads s" "writes (transfer op data s) = writes s"
  by (cases op; simp add: Let_def)+

lemma transfer_write_simps:
  assumes "\<not> is_read op"
  shows "wire_in (transfer op data s) = wire_in s" "message_to_read (transfer op data s) = message_to_read s"
  using assms by (cases op; simp)+

lemma transfer_read_simps:
  assumes "is_read op" shows "wire_out (transfer op data s) = wire_out s"
  using assms by (cases op) (simp_all add: Let_def)

lemma transfer_grows: "session_grows s (transfer op data (take_op k s))"
  by (cases op) (simp_all add: session_grows_def Let_def)

declare transfer.simps [simp del]

lemma transfer_handlers:
  "closer_inv s \<Longrightarrow> closer_inv (transfer op data (take_op k s))"
  "delivery_inv s \<Longrightarrow> delivery_inv (transfer op data (take_op k s))"
  by (auto intro: closer_inv_cong [of s] delivery_inv_cong [of s])

lemma read_untouched_writer:
  assumes "writer_inv s" "k < length (pending s)" "is_read (fst (pending s ! k))"
  shows "writer_inv (transfer (fst (pending s ! k)) data (take_op k s))"
  using assms by (intro writer_inv_cong [OF assms(1)])
    (simp_all add: take_read_writes transfer_read_simps)

lemma write_untouched_reader:
  assumes "reader_inv b s" "k < length (pending s)" "\<not> is_read (fst (pending s ! k))"
  shows "reader_inv b (transfer (fst (pending s ! k)) data (take_op k s))"
  using assms by (intro reader_inv_cong [OF assms(1)])
    (simp_all add: take_write_reads transfer_write_simps)

lemma close_socket_writer: "writer_inv s \<Longrightarrow> writer_inv (s\<lparr>socket_open := False\<rparr>)"
  by (erule writer_inv_cong) simp_all

lemma close_socket_reader: "reader_inv b s \<Longrightarrow> reader_inv b (s\<lparr>socket_open := False\<rparr>)"
  by (erule reader_inv_cong) simp_all

lemma failed_closable:
  assumes "session_inv b s" "k < length (pending s)" "io_result (pending s ! k) err data" "failed err"
  shows "closable b (transfer (fst (pending s ! k)) data (take_op k s))"
proof -
  let ?t = "transfer (fst (pending s ! k)) data (take_op k s)"
  have inv: "writer_inv s" "reader_inv b s" "closer_inv s" "delivery_inv s"
    using assms(1) by (auto simp: session_inv_def)
  have "closer_inv ?t" "delivery_inv ?t"
    using inv by (simp_all only: transfer_handlers)
  moreover have "writer_inv (?t\<lparr>socket_open := False\<rparr>) \<and> reader_inv b (?t\<lparr>socket_open := False\<rparr>)"
  proof (cases "is_read (fst (pending s ! k))")
    case True
    have "reader_inv b (?t\<lparr>socket_open := False\<rparr>)"
      using read_failed [OF inv(2) assms(2) True assms(3,4)] by simp
    then show ?thesis
      using close_socket_writer [OF read_untouched_writer [OF inv(1) assms(2) True]] by simp
  next
    case False
    then show ?thesis
      using write_failed [OF inv(1) assms(2) False assms(3,4)]
        close_socket_reader [OF write_untouched_reader [OF inv(2) assms(2) False]] by simp
  qed
  ultimately show ?thesis by (simp add: closable_def)
qed

lemma header_written_simps:
  "header_written t = Ok () u \<Longrightarrow> reads u = reads t \<and> onmessage u = onmessage t \<and> onclose u = onclose t
   \<and> socket_open u = socket_open t \<and> wire_in u = wire_in t \<and> wire_out u = wire_out t
   \<and> frames_in u = frames_in t \<and> delivered u = delivered t \<and> notified u = notified t
   \<and> accepted u = accepted t \<and> message_to_read u = message_to_read t"
  by (auto simp: header_written_def)

lemma payload_written_simps:
  "payload_written t = Ok () u \<Longrightarrow> reads u = reads t \<and> onmessage u = onmessage t \<and> onclose u = onclose t
   \<and> socket_open u = socket_open t \<and> wire_in u = wire_in t \<and> wire_out u = wire_out t
   \<and> frames_in u = frames_in t \<and> delivered u = delivered t \<and> notified u = notified t
   \<and> accepted u = accepted t \<and> message_to_read u = message_to_read t"
  by (auto simp: payload_written_def split: list.splits)

definition written :: "aop \<Rightarrow> ('m, 'c) session \<Rightarrow> (unit, ('m, 'c) session) res" where
  "written op s = (case op of Write_header b \<Rightarrow> header_written s | _ \<Rightarrow> payload_written s)"

lemma write_succeeds:
  assumes inv: "session_inv b s" and k: "k < length (pending s)"
    and w: "\<not> is_read (fst (pending s ! k))"
    and io: "io_result (pending s ! k) err data" and ok: "\<not> failed err"
  shows "\<exists>u. written (fst (pending s ! k)) (transfer (fst (pending s ! k)) data (take_op k s)) = Ok () u
    \<and> session_inv b u \<and> session_grows s u"
proof -
  let ?t = "transfer (fst (pending s ! k)) data (take_op k s)"
  obtain u where u: "written (fst (pending s ! k)) ?t = Ok () u" and wi: "writer_inv u"
    using header_write_done [OF _ k _ io ok] payload_write_done [OF _ k _ io ok] inv w
    by (cases "fst (pending s ! k)") (fastforce simp: written_def session_inv_def)+
  have eq: "reads u = reads ?t" "onmessage u = onmessage ?t" "onclose u = onclose ?t"
    "socket_open u = socket_open ?t" "wire_in u = wire_in ?t" "wire_out u = wire_out ?t"
    "frames_in u = frames_in ?t" "delivered u = delivered ?t" "notified u = notified ?t"
    "accepted u = accepted ?t" "message_to_read u = message_to_read ?t"
    using u header_written_simps [of ?t u] payload_written_simps [of ?t u]
    by (auto simp: written_def split: aop.splits)
  have "reader_inv b ?t" using inv k w by (simp add: session_inv_def write_untouched_reader)
  then have "reader_inv b u" by (rule reader_inv_cong) (simp_all only: eq)
  moreover have "closer_inv u" "delivery_inv u" using inv
    by (auto simp: session_inv_def eq intro: closer_inv_cong [of s] delivery_inv_cong [of s])
  moreover have "session_grows s u"
    using transfer_grows [of s "fst (pending s ! k)" data k] by (simp add: session_grows_def eq)
  ultimately show ?thesis using u wi by (auto simp: session_inv_def)
qed

lemma read_payload_simps [simp]:
  "writes (read_payload n s) = writes s" "socket_open (read_payload n s) = socket_open s"
  "write_queue (read_payload n s) = write_queue s" "onmessage (read_payload n s) = onmessage s"
  "onclose (read_payload n s) = onclose s" "accepted (read_payload n s) = accepted s"
  "wire_out (read_payload n s) = wire_out s" "wire_in (read_payload n s) = wire_in s"
  "frames_in (read_payload n s) = frames_in s" "delivered (read_payload n s) = delivered s"
  "notified (read_payload n s) = notified s"
  by (simp_all add: read_payload_def Let_def writes_async_start)

text \<open>
  A payload has arrived: the session when its message handler is called, with the message recorded
  as received and, for a user's handler, as handed over.
\<close>

definition received :: "nat \<Rightarrow> nat \<Rightarrow> bytes \<Rightarrow> ('m, 'c) session \<Rightarrow> ('m, 'c) session" where
  "received n k data s =
     (let t = transfer (Read_payload n) data (take_op k s)
      in t\<lparr>frames_in := frames_in t @ [payload (message_to_read t)]\<rparr>)"

definition handed_over :: "('m, 'c) session \<Rightarrow> ('m, 'c) session" where
  "handed_over s = s\<lparr>delivered := delivered s @ [payload (message_to_read s)]\<rparr>"

lemma received_simps [simp]:
  "socket_open (received n k data s) = socket_open s" "onmessage (received n k data s) = onmessage s"
  "onclose (received n k data s) = onclose s" "delivered (received n k data s) = delivered s"
  "notified (received n k data s) = notified s" "accepted (received n k data s) = accepted s"
  by (simp_all add: received_def Let_def)

lemma payload_received:
  assumes inv: "session_inv b s" and k: "k < length (pending s)"
    and op: "fst (pending s ! k) = Read_payload n"
    and io: "io_result (pending s ! k) err data" and ok: "\<not> failed err"
  shows "\<not> b" and "onmessage s \<noteq> Empty" and "session_grows s (received n k data s)"
    and "onmessage s = No_op \<Longrightarrow> session_inv True (received n k data s)"
    and "onmessage s = User m \<Longrightarrow> session_inv True (handed_over (received n k data s))"
proof -
  let ?t = "transfer (Read_payload n) data (take_op k s)" and ?g = "received n k data s"
  have s: "writer_inv s" "reader_inv b s" "closer_inv s" "delivery_inv s"
    using inv by (auto simp: session_inv_def)
  note pd = payload_read_done [OF s(2) k op io ok]
  show "\<not> b" by (rule pd(1))
  have fr: "frames_in ?g = frames_in s @ [payload (message_to_read ?g)]"
    by (simp add: received_def Let_def)
  have g: "writer_inv ?g" "reader_inv True ?g" "closer_inv ?g"
    using read_untouched_writer [OF s(1) k, of data] op pd(3)
      transfer_handlers(1) [OF s(3), of "Read_payload n" data k]
    by (auto simp: received_def Let_def intro: writer_inv_cong [of ?t] closer_inv_cong [of ?t])
  then show "onmessage s \<noteq> Empty" by (auto elim: handlingE)
  show "session_grows s ?g"
    using transfer_grows [of s "Read_payload n" data k]
    by (simp add: received_def Let_def session_grows_def)
  show "session_inv True ?g" if "onmessage s = No_op"
    using g s(4) that by (simp add: session_inv_def delivery_inv_def fr prefix_prefix)
  show "session_inv True (handed_over ?g)" if "onmessage s = User m"
  proof -
    have "writer_inv (handed_over ?g)" "reader_inv True (handed_over ?g)" "closer_inv (handed_over ?g)"
      using g by (auto simp: handed_over_def intro: writer_inv_cong [of ?g] reader_inv_cong [of _ ?g]
          closer_inv_cong [of ?g])
    then show ?thesis
      using s(4) that by (simp add: session_inv_def delivery_inv_def handed_over_def fr)
  qed
qed

lemma complete_payload_eq:
  assumes "fst (pending (heap w i) ! k) = Read_payload n" "\<not> failed err" "onmessage (heap w i) \<noteq> Empty"
  shows "complete U i k err data w =
    seq (swallow (case onmessage (heap w i) of
           User m \<Rightarrow> run_message U m (payload (message_to_read (received n k data (heap w i))))
                      (on_session i (\<lambda>s. handed_over (received n k data s)) w)
         | _ \<Rightarrow> Ok () (on_session i (received n k data) w)))
      (\<lambda>w2. Ok () (on_session i read_header w2))"
proof -
  have "(\<lambda>s. handed_over (received n k data s)) (heap w i) =
      (let t = received n k data (heap w i)
       in t\<lparr>delivered := delivered t @ [payload (message_to_read (received n k data (heap w i)))]\<rparr>)"
    by (simp add: handed_over_def Let_def)
  then show ?thesis
    using assms by (cases "onmessage (heap w i)")
      (simp_all add: complete_def on_read_payload_def received_def Let_def handed_over_def on_session_def)
qed

text \<open>A header the parser refuses leaves a session that is about to be closed.\<close>

lemma header_refused_closing:
  assumes inv: "store_inv B w" and k: "k < length (pending (heap w i))"
    and op: "fst (pending (heap w i) ! k) = Read_header"
    and io: "io_result (pending (heap w i) ! k) err data" and ok: "\<not> failed err"
  defines "f \<equiv> \<lambda>s. transfer Read_header data (take_op k s)"
  assumes p: "parse_header (message_to_read (f (heap w i))) 0 = (False, n)"
  shows "closing_inv B i (on_session i f w)"
proof (rule closing_inv_upd [OF inv])
  have s: "writer_inv (heap w i)" "reader_inv (i \<in> B) (heap w i)" "closer_inv (heap w i)" "delivery_inv (heap w i)"
    using store_invD [OF inv, of i] by (auto simp: session_inv_def)
  note hd = header_read_done [OF s(2) k op io ok]
  have wr: "writer_inv (f (heap w i))" using read_untouched_writer [OF s(1) k, of data] op by (simp add: f_def)
  show "closable (i \<in> B) (f (heap w i))"
    using hd(1,3) p close_socket_writer [OF wr] transfer_handlers [of "heap w i" "Read_header" data k] s(3,4)
    by (simp add: closable_def f_def)
qed

section \<open>Completion handlers keep the invariant\<close>

context session_user
begin

lemma complete_failed_keeps:
  assumes inv: "store_inv B w" and k: "k < length (pending (heap w i))"
    and io: "io_result (pending (heap w i) ! k) err data" and bad: "failed err"
  shows "res_all (keeps B w) (complete U i k err data w)"
proof -
  let ?op = "fst (pending (heap w i) ! k)"
  let ?w1 = "on_session i (\<lambda>s. transfer ?op data (take_op k s)) w"
  have "closing_inv B i ?w1"
    by (rule closing_inv_upd [OF inv]) (rule failed_closable [OF store_invD [OF inv] k io bad])
  then have "res_all (keeps B ?w1) (close_intern U i err ?w1)" by (rule close_intern_keeps)
  moreover have "grows w ?w1" by (rule grows_on_session) (rule transfer_grows)
  ultimately have "res_all (keeps B w) (close_intern U i err ?w1)" by (rule res_keeps_trans [rotated])
  moreover have "complete U i k err data w = close_intern U i err ?w1"
    using bad by (cases ?op) (simp_all add: complete_def Let_def on_read_header_def on_read_payload_def
        on_write_header_def on_write_payload_def)
  ultimately show ?thesis by simp
qed

lemma complete_write_keeps:
  assumes inv: "store_inv B w" and k: "k < length (pending (heap w i))"
    and wr: "\<not> is_read (fst (pending (heap w i) ! k))"
    and io: "io_result (pending (heap w i) ! k) err data" and ok: "\<not> failed err"
  shows "res_all (keeps B w) (complete U i k err data w) \<and> returns (complete U i k err data w)"
proof -
  let ?op = "fst (pending (heap w i) ! k)"
  let ?w1 = "on_session i (\<lambda>s. transfer ?op data (take_op k s)) w"
  obtain u where u: "written ?op (heap ?w1 i) = Ok () u" "session_inv (i \<in> B) u" "session_grows (heap w i) u"
    using write_succeeds [OF store_invD [OF inv] k wr io ok] by auto
  have "complete U i k err data w = call_on i (written ?op) ?w1"
    using ok wr by (cases ?op) (simp_all add: complete_def Let_def written_def call_on_def
        on_write_header_def on_write_payload_def)
  also have "\<dots> = Ok () (on_session i (\<lambda>_. u) w)"
    using u(1) by (simp add: call_on_Ok)
  finally have *: "complete U i k err data w = Ok () (on_session i (\<lambda>_. u) w)" .
  have "keeps B w (on_session i (\<lambda>_. u) w)" by (rule keeps_upd [OF inv u(2,3)])
  then show ?thesis by (simp add: *)
qed

lemma complete_header_keeps:
  assumes inv: "store_inv B w" and k: "k < length (pending (heap w i))"
    and op: "fst (pending (heap w i) ! k) = Read_header"
    and io: "io_result (pending (heap w i) ! k) err data" and ok: "\<not> failed err"
  shows "res_all (keeps B w) (complete U i k err data w)"
proof -
  let ?s = "heap w i"
  let ?f = "\<lambda>s. transfer Read_header data (take_op k s)"
  let ?w1 = "on_session i ?f w"
  have gr: "session_grows ?s (?f ?s)" by (rule transfer_grows)
  have comp: "complete U i k err data w = on_read_header U i err ?w1"
    using op by (simp add: complete_def Let_def)
  obtain v n where p: "parse_header (message_to_read (?f ?s)) 0 = (v, n)" by force
  show ?thesis
  proof (cases v)
    case True
    let ?g = "\<lambda>s. read_payload n (?f s)"
    have s: "writer_inv ?s" "reader_inv (i \<in> B) ?s" "closer_inv ?s" "delivery_inv ?s"
      using store_invD [OF inv, of i] by (auto simp: session_inv_def)
    have "reader_inv (i \<in> B) (?g ?s)"
      using header_read_done(1,2) [OF s(2) k op io ok] p True by simp
    moreover have "writer_inv (?g ?s)"
      using read_untouched_writer [OF s(1) k, of data] op by (auto intro: writer_inv_cong [of "?f ?s"])
    moreover have "closer_inv (?g ?s)" "delivery_inv (?g ?s)"
      using s(3,4) by (auto intro: closer_inv_cong [of ?s] delivery_inv_cong [of ?s])
    moreover have "session_grows ?s (?g ?s)" using gr by (simp add: session_grows_def)
    ultimately have "keeps B w (on_session i ?g w)" by (intro keeps_upd [OF inv]) (simp_all add: session_inv_def)
    then show ?thesis using ok p True by (simp add: comp on_read_header_def)
  next
    case False
    have "closing_inv B i ?w1"
      using header_refused_closing [OF inv k op io ok] p False by simp
    then have "res_all (keeps B ?w1) (close_intern U i bad_message ?w1)" by (rule close_intern_keeps)
    then have "res_all (keeps B w) (close_intern U i bad_message ?w1)"
      by (rule res_keeps_trans [OF grows_on_session [of w i ?f, OF gr]])
    then show ?thesis using ok p False by (simp add: comp on_read_header_def)
  qed
qed

lemma complete_payload_keeps:
  assumes inv: "store_inv B w" and i: "i < next_sid w" and k: "k < length (pending (heap w i))"
    and op: "fst (pending (heap w i) ! k) = Read_payload n"
    and io: "io_result (pending (heap w i) ! k) err data" and ok: "\<not> failed err"
  shows "res_all (keeps B w) (complete U i k err data w)"
proof -
  let ?s = "heap w i" and ?B = "insert i B"
  note pr = payload_received [OF store_invD [OF inv, of i] k op io ok]
  have upd: "keeps ?B w (on_session i h w)" if "session_inv True (h ?s)" "session_grows ?s (h ?s)" for h
    using store_inv_upd [OF inv, of i ?B h] that i grows_on_session [of w i h] by (simp add: keeps_def)
  have run: "res_all (keeps ?B w) (swallow (case onmessage ?s of
        User m \<Rightarrow> run_message U m (payload (message_to_read (received n k data ?s)))
                   (on_session i (\<lambda>s. handed_over (received n k data s)) w)
      | _ \<Rightarrow> Ok () (on_session i (received n k data) w)))"
  proof (cases "onmessage ?s")
    case (User m)
    have "session_grows ?s (handed_over (received n k data ?s))"
      using pr(3) User by (auto simp: session_grows_def handed_over_def prefix_def)
    then have "keeps ?B w (on_session i (\<lambda>s. handed_over (received n k data s)) w)"
      using pr(5) [OF User] by (intro upd)
    then show ?thesis using User by (auto simp: keeps_def intro: res_keeps_trans run_message_keeps)
  qed (use pr upd in simp_all)
  have "res_all (keeps B w) (Ok () (on_session i read_header w2))" if "keeps ?B w w2" for w2
  proof -
    from that have w2: "store_inv ?B w2" "grows w w2" by (simp_all add: keeps_def)
    let ?t = "heap w2 i"
    have "session_inv False (read_header ?t)"
      using store_invD [OF w2(1), of i] reader_resumes by (auto simp: session_inv_def
          intro: writer_inv_cong [of ?t] closer_inv_cong [of ?t] delivery_inv_cong [of ?t])
    then have "store_inv B (on_session i read_header w2)"
      using w2(1) pr(1) by (intro store_inv_upd [of ?B]) (auto simp: store_inv_def)
    moreover have "grows w2 (on_session i read_header w2)"
      by (rule grows_on_session) (simp add: session_grows_def)
    ultimately show ?thesis using w2(2) by (auto simp: keeps_def intro: grows_trans)
  qed
  then show ?thesis
    unfolding complete_payload_eq [OF op ok pr(2)] by (rule res_all_try_then [OF run])
qed

theorem complete_keeps:
  assumes "store_inv B w" "i < next_sid w" "k < length (pending (heap w i))"
    and "io_result (pending (heap w i) ! k) err data"
  shows "res_all (keeps B w) (complete U i k err data w)"
proof (cases "failed err")
  case True
  then show ?thesis using complete_failed_keeps assms by blast
next
  case False
  then show ?thesis
    using complete_write_keeps [OF assms(1,3) _ assms(4)] complete_header_keeps [OF assms(1,3) _ assms(4)]
      complete_payload_keeps [OF assms(1-3) _ assms(4)]
    by (cases "fst (pending (heap w i) ! k)") auto
qed

end

end
