(* ===== verification/Library_Steps.thy ===== *)
theory Library_Steps
  imports Completion
begin

text \<open>
  The library as a step relation: calls of the interface \<open>session_i\<close> (and \<open>create_session\<close>) by
  the program, interleaved in any order with completions of pending operations. Then a client
  that may do anything the interface allows: user code given by scripts of calls, chosen from the
  whole store, run by handlers inside handlers.
\<close>

section \<open>Calls of the interface\<close>

text \<open>
  The choices of the program, as data for the step relation: the methods of \<open>session_i\<close> and the function
  \<open>create_session\<close>. \<open>perform\<close> makes such a call on the model of \<open>asio_session\<close>.
\<close>

datatype ('m, 'c) api_call =
    Create bool
  | Send sid bytes
  | Set_onclose sid "'c func"
  | Set_onmessage sid "'m func"
  | Close sid

definition ignore :: "('a, 'w) res \<Rightarrow> (unit, 'w) res" where
  "ignore r = seq r (Ok ())"

fun perform ::
    "('m, 'c, ('m, 'c, 'x) world_scheme) user_code \<Rightarrow> ('m, 'c) api_call
     \<Rightarrow> ('m, 'c, 'x) world_scheme \<Rightarrow> (unit, ('m, 'c, 'x) world_scheme) res" where
  "perform U (Create sock) w = ignore (create_session sock w)"
| "perform U (Send i message) w = ignore (call_on i (send message) w)"
| "perform U (Set_onclose i handler) w = set_onclose U i handler w"
| "perform U (Set_onmessage i handler) w = call_on i (set_onmessage handler) w"
| "perform U (Close i) w = close U i w"

text \<open>
  A call is made on an existing session. The message handler given is not an empty function:
  \<open>set_onmessage\<close> accepts one, starts to read, and accepts another later, so that two reads are
  under way at once.
\<close>

fun valid_call :: "('m, 'c, 'x) world_scheme \<Rightarrow> ('m, 'c) api_call \<Rightarrow> bool" where
  "valid_call w (Create sock) = True"
| "valid_call w (Send i message) = (i < next_sid w)"
| "valid_call w (Set_onclose i handler) = (i < next_sid w)"
| "valid_call w (Set_onmessage i handler) = (i < next_sid w \<and> handler \<noteq> Empty)"
| "valid_call w (Close i) = (i < next_sid w)"

lemma res_all_ignore [simp]: "res_all P (ignore r) = res_all P r"
  by (cases r) (simp_all add: ignore_def)

lemma ignore_Undef [simp]: "ignore r = Undef \<longleftrightarrow> r = Undef"
  by (cases r) (simp_all add: ignore_def)

section \<open>Steps and reachable stores\<close>

inductive lib_step ::
    "('m, 'c, ('m, 'c, 'x) world_scheme) user_code
     \<Rightarrow> ('m, 'c, 'x) world_scheme \<Rightarrow> ('m, 'c, 'x) world_scheme \<Rightarrow> bool" for U where
  api: "valid_call w c \<Longrightarrow> state_of (perform U c w) = Some w' \<Longrightarrow> lib_step U w w'"
| io: "i < next_sid w \<Longrightarrow> k < length (pending (heap w i)) \<Longrightarrow> io_result (pending (heap w i) ! k) err data
    \<Longrightarrow> state_of (complete U i k err data w) = Some w' \<Longrightarrow> lib_step U w w'"

definition no_sessions :: "('m, 'c, 'x) world_scheme \<Rightarrow> bool" where
  "no_sessions w \<longleftrightarrow> next_sid w = 0 \<and> heap w = (\<lambda>_. asio_session False)"

inductive reachable ::
    "('m, 'c, ('m, 'c, 'x) world_scheme) user_code \<Rightarrow> ('m, 'c, 'x) world_scheme \<Rightarrow> bool" for U where
  init: "no_sessions w \<Longrightarrow> reachable U w"
| step: "reachable U w \<Longrightarrow> lib_step U w w' \<Longrightarrow> reachable U w'"

lemma store_inv_no_sessions: "no_sessions w \<Longrightarrow> store_inv {} w"
  by (simp add: no_sessions_def store_inv_def session_inv_new)

context session_user
begin

lemma perform_keeps:
  assumes inv: "store_inv B w" and "valid_call w c"
  shows "res_all (keeps B w) (perform U c w)"
proof (cases c)
  case (Create sock)
  then show ?thesis by (simp add: create_session_keeps [OF inv])
next
  case (Send i message)
  then show ?thesis by (simp add: res_keeps_call_on [OF inv] send_session_inv [OF store_invD [OF inv]])
next
  case (Set_onclose i handler)
  then show ?thesis by (simp add: set_onclose_keeps [OF inv])
next
  case (Set_onmessage i handler)
  then show ?thesis using assms(2)
    by (simp add: res_keeps_call_on [OF inv] set_onmessage_session_inv [OF store_invD [OF inv]])
next
  case (Close i)
  then show ?thesis by (simp add: close_keeps [OF inv])
qed

lemma lib_step_keeps: "lib_step U w w' \<Longrightarrow> store_inv {} w \<Longrightarrow> keeps {} w w'"
proof (induction rule: lib_step.induct)
  case (api w c w')
  then show ?case using perform_keeps [of "{}" w c] by (simp add: res_all_state_of)
next
  case (io i w k err data w')
  then show ?case using complete_keeps [of "{}" w i k err data] by (simp add: res_all_state_of)
qed

lemma reachable_inv: "reachable U w \<Longrightarrow> store_inv {} w"
  by (induction rule: reachable.induct) (auto intro: store_inv_no_sessions dest: lib_step_keeps keeps_inv)

lemma reachable_session: "reachable U w \<Longrightarrow> session_inv False (heap w i)"
  using reachable_inv store_invD [of "{}" w i] by simp

lemma reachable_step_grows: "reachable U w \<Longrightarrow> lib_step U w w' \<Longrightarrow> grows w w'"
  using reachable_inv lib_step_keeps by (auto simp: keeps_def)

end

section \<open>Scripted clients\<close>

text \<open>
  What a handler does is a list of calls and whether it then throws; it may depend on the handler,
  its argument and the whole store. A call that throws does not end the script: a handler that is
  left by an exception is the script that stops there and throws. Handlers call methods that call
  handlers; the depth of this nesting is the fuel, and \<open>nesting_bounded\<close> below bounds it.
\<close>

type_synonym ('m, 'c) script = "('m, 'c) api_call list \<times> bool"

record ('m, 'c, 'w) scripts =
  message_script :: "'m \<Rightarrow> bytes \<Rightarrow> 'w \<Rightarrow> ('m, 'c) script"
  close_script :: "'c \<Rightarrow> error_code \<Rightarrow> 'w \<Rightarrow> ('m, 'c) script"

fun run_calls ::
    "('m, 'c, ('m, 'c, 'x) world_scheme) user_code \<Rightarrow> ('m, 'c) api_call list
     \<Rightarrow> ('m, 'c, 'x) world_scheme \<Rightarrow> (unit, ('m, 'c, 'x) world_scheme) res" where
  "run_calls U [] w = Ok () w"
| "run_calls U (c # cs) w =
     (if valid_call w c then seq (swallow (perform U c w)) (run_calls U cs) else run_calls U cs w)"

definition run_script ::
    "('m, 'c, ('m, 'c, 'x) world_scheme) user_code \<Rightarrow> ('m, 'c) script
     \<Rightarrow> ('m, 'c, 'x) world_scheme \<Rightarrow> (unit, ('m, 'c, 'x) world_scheme) res" where
  "run_script U s w =
     seq (run_calls U (fst s) w)
         (\<lambda>w'. if snd s then Exc (Runtime_error ''thrown by a handler'') w' else Ok () w')"

primrec scripted ::
    "('m, 'c, ('m, 'c, 'x) world_scheme) scripts \<Rightarrow> nat
     \<Rightarrow> ('m, 'c, ('m, 'c, 'x) world_scheme) user_code" where
  "scripted P 0 = \<lparr>run_message = \<lambda>m b w. Undef, run_close = \<lambda>c e w. Undef\<rparr>"
| "scripted P (Suc n) =
     \<lparr>run_message = \<lambda>m b w. run_script (scripted P n) (message_script P m b w) w,
      run_close = \<lambda>c e w. run_script (scripted P n) (close_script P c e w) w\<rparr>"

context session_user
begin

lemma run_calls_keeps: "store_inv B w \<Longrightarrow> res_all (keeps B w) (run_calls U cs w)"
proof (induction cs arbitrary: w)
  case Nil
  then show ?case by (simp add: keeps_refl)
next
  case (Cons c cs)
  show ?case
  proof (cases "valid_call w c")
    case True
    have "res_all (keeps B w) (swallow (perform U c w))"
      using perform_keeps [OF Cons.prems True] by simp
    then have "res_all (keeps B w) (seq (swallow (perform U c w)) (run_calls U cs))"
      by (rule res_all_try_then) (metis Cons.IH keeps_def res_keeps_trans)
    then show ?thesis using True by simp
  next
    case False
    then show ?thesis using Cons by simp
  qed
qed

lemma run_script_keeps: "store_inv B w \<Longrightarrow> res_all (keeps B w) (run_script U s w)"
  unfolding run_script_def by (rule res_all_seq) (simp_all add: run_calls_keeps)

end

lemma session_user_scripted: "session_user (scripted P n)"
proof (induction n)
  case 0
  show ?case by unfold_locales simp_all
next
  case (Suc n)
  then show ?case
    by (intro session_user.intro) (simp_all add: session_user.run_script_keeps)
qed

interpretation scripted: session_user "scripted P n" for P n
  by (rule session_user_scripted)

end
