(* ===== verification/Nesting.thy ===== *)
theory Nesting
  imports Library_Steps
begin

text \<open>
  Handlers may call methods that call handlers. The nesting ends: a user's close handler runs at
  most once for a session, so inside a close handler one session fewer is left whose close handler
  can still run. Hence the fuel of a scripted client is enough as soon as it exceeds the number of
  sessions, and no run of the library is cut short by it.
\<close>

section \<open>Sessions whose close handler has not run\<close>

definition unnotified :: "('m, 'c, 'x) world_scheme \<Rightarrow> sid set" where
  "unnotified w = {i. i < next_sid w \<and> notified (heap w i) = []}"

lemma finite_unnotified [simp]: "finite (unnotified w)"
  by (simp add: unnotified_def)

lemma card_unnotified_le: "card (unnotified w) \<le> next_sid w"
  using card_mono [of "{..<next_sid w}" "unnotified w"] by (auto simp: unnotified_def)

lemma grows_unnotified:
  assumes "grows w w'" "next_sid w' = next_sid w"
  shows "unnotified w' \<subseteq> unnotified w"
proof -
  have "prefix (notified (heap w i)) (notified (heap w' i))" if "i < next_sid w" for i
    using assms(1) that by (simp add: grows_def session_grows_def)
  then show ?thesis using assms(2) by (fastforce simp: unnotified_def)
qed

lemma grows_card:
  "grows w w' \<Longrightarrow> next_sid w' = next_sid w \<Longrightarrow> card (unnotified w') \<le> card (unnotified w)"
  by (simp add: card_mono grows_unnotified)

lemma notify_card:
  assumes "i < next_sid w" "notified (heap w i) = []" "notified (f (heap w i)) \<noteq> []"
  shows "card (unnotified (on_session i f w)) < card (unnotified w)"
proof (rule psubset_card_mono)
  have "unnotified (on_session i f w) = unnotified w - {i}"
    using assms by (auto simp: unnotified_def)
  moreover have "i \<in> unnotified w" using assms by (simp add: unnotified_def)
  ultimately show "unnotified (on_session i f w) \<subset> unnotified w" by auto
qed simp

section \<open>Clients that create no sessions in handlers\<close>

definition no_create :: "('m, 'c) api_call list \<Rightarrow> bool" where
  "no_create cs \<longleftrightarrow> (\<forall>sock. Create sock \<notin> set cs)"

definition creates_nothing :: "('m, 'c, ('m, 'c, 'x) world_scheme) scripts \<Rightarrow> bool" where
  "creates_nothing P \<longleftrightarrow> (\<forall>m b w. no_create (fst (message_script P m b w)))
     \<and> (\<forall>c e w. no_create (fst (close_script P c e w)))"

definition same_sids :: "('m, 'c, 'x) world_scheme \<Rightarrow> ('m, 'c, 'x) world_scheme \<Rightarrow> bool" where
  "same_sids w w' \<longleftrightarrow> next_sid w' = next_sid w"

definition handlers_same_sids :: "('m, 'c, ('m, 'c, 'x) world_scheme) user_code \<Rightarrow> bool" where
  "handlers_same_sids U \<longleftrightarrow>
     (\<forall>m b w. res_all (same_sids w) (run_message U m b w)) \<and> (\<forall>c e w. res_all (same_sids w) (run_close U c e w))"

lemma same_sids_refl [simp]: "same_sids w w"
  by (simp add: same_sids_def)

lemma same_sids_upd [simp]: "same_sids w (on_session i f w') = same_sids w w'"
  "same_sids (on_session i f w) w' = same_sids w w'"
  by (simp_all add: same_sids_def)

lemma same_sids_run: "same_sids w w' \<Longrightarrow> res_all (same_sids w') r \<Longrightarrow> res_all (same_sids w) r"
  by (cases r) (simp_all add: same_sids_def)

lemma call_on_same_sids: "res_all (same_sids w) (call_on i f w)"
  by (cases "f (heap w i)") (simp_all add: call_on_def)

lemma invoke_close_same_sids:
  assumes "handlers_same_sids U" "same_sids w w'"
  shows "res_all (same_sids w) (invoke_close U i h e w')"
proof (cases h)
  case (User c)
  let ?w1 = "on_session i (\<lambda>s. s\<lparr>notified := notified s @ [e]\<rparr>) w'"
  have "res_all (same_sids w) (run_close U c e ?w1)"
    by (rule same_sids_run [of w ?w1]) (use assms in \<open>simp_all add: handlers_same_sids_def\<close>)
  then show ?thesis by (simp add: User)
qed (simp_all add: assms(2))

lemma close_intern_same_sids:
  assumes "handlers_same_sids U" shows "res_all (same_sids w) (close_intern U i err w)"
proof -
  let ?w1 = "on_session i (\<lambda>s. s\<lparr>socket_open := False\<rparr>) w"
  have "res_all (same_sids w) (swallow (invoke_close U i (onclose (heap w i)) err ?w1))"
    using invoke_close_same_sids [OF assms, of w ?w1] by simp
  then have "res_all (same_sids w) (seq (swallow (invoke_close U i (onclose (heap w i)) err ?w1))
      (\<lambda>w2. Ok () (on_session i (\<lambda>s. s\<lparr>onclose := No_op\<rparr>) w2)))"
    by (rule res_all_try_then) simp
  then show ?thesis by (auto simp: close_intern_def Let_def intro!: res_all_seq)
qed

lemma perform_same_sids:
  "handlers_same_sids U \<Longrightarrow> no_create [c] \<Longrightarrow> res_all (same_sids w) (perform U c w)"
  by (cases c) (auto simp: no_create_def call_on_same_sids close_intern_same_sids close_def
      set_onclose_def Let_def invoke_close_same_sids)

lemma run_calls_same_sids:
  assumes "handlers_same_sids U"
  shows "no_create cs \<Longrightarrow> res_all (same_sids w) (run_calls U cs w)"
proof (induction cs arbitrary: w)
  case (Cons c cs)
  have nc: "no_create [c]" "no_create cs" using Cons.prems by (auto simp: no_create_def)
  have "res_all (same_sids w) (swallow (perform U c w))"
    using perform_same_sids [OF assms nc(1)] by simp
  then have "res_all (same_sids w) (seq (swallow (perform U c w)) (run_calls U cs))"
    by (rule res_all_try_then) (rule same_sids_run [OF _ Cons.IH [OF nc(2)]])
  then show ?case using Cons.IH [OF nc(2)] by simp
qed simp

lemma scripted_same_sids: "creates_nothing P \<Longrightarrow> handlers_same_sids (scripted P n)"
proof (induction n)
  case (Suc n)
  then have "no_create (fst s) \<Longrightarrow> res_all (same_sids w) (run_script (scripted P n) s w)" for s w
    unfolding run_script_def by (intro res_all_seq run_calls_same_sids) simp_all
  then show ?case using Suc.prems by (simp add: handlers_same_sids_def creates_nothing_def)
qed (simp add: handlers_same_sids_def)

section \<open>Nothing is undefined\<close>

text \<open>A method that closes is defined if the close handler it runs is.\<close>

lemma close_intern_defined:
  assumes "\<And>c. socket_open (heap w i) \<Longrightarrow> onclose (heap w i) = User c \<Longrightarrow>
    run_close U c err (on_session i (\<lambda>s. s\<lparr>socket_open := False, notified := notified s @ [err]\<rparr>) w) \<noteq> Undef"
  shows "close_intern U i err w \<noteq> Undef"
proof (cases "socket_open (heap w i)")
  case True
  let ?w1 = "on_session i (\<lambda>s. s\<lparr>socket_open := False\<rparr>) w"
  have inv: "invoke_close U i (onclose (heap w i)) err ?w1 \<noteq> Undef"
    using assms True by (cases "onclose (heap w i)") simp_all
  have "(if onclose (heap w i) \<noteq> Empty
      then seq (swallow (invoke_close U i (onclose (heap w i)) err ?w1))
        (\<lambda>w2. Ok () (on_session i (\<lambda>s. s\<lparr>onclose := No_op\<rparr>) w2))
      else Ok () ?w1) \<noteq> Undef"
    using inv by (simp add: seq_Undef_iff)
  then show ?thesis using True inv by (simp add: close_intern_def Let_def seq_Undef_iff)
qed (simp add: close_intern_def)

lemma set_onclose_defined:
  assumes "\<And>c. onclose (heap w i) = Empty \<Longrightarrow> \<not> socket_open (heap w i) \<Longrightarrow> handler = User c \<Longrightarrow>
    run_close U c no_error (on_session i (\<lambda>s. s\<lparr>onclose := User c, notified := notified s @ [no_error]\<rparr>) w) \<noteq> Undef"
  shows "set_onclose U i handler w \<noteq> Undef"
  using assms by (cases handler) (auto simp: set_onclose_def Let_def)

definition calls_defined :: "('m, 'c, ('m, 'c, 'x) world_scheme) user_code \<Rightarrow> nat \<Rightarrow> bool" where
  "calls_defined U n \<longleftrightarrow> (\<forall>B w c. store_inv B w \<and> valid_call w c \<and> card (unnotified w) \<le> n
     \<longrightarrow> perform U c w \<noteq> Undef)"

definition closers_defined :: "('m, 'c, ('m, 'c, 'x) world_scheme) user_code \<Rightarrow> nat \<Rightarrow> bool" where
  "closers_defined U n \<longleftrightarrow> (\<forall>B w c e. store_inv B w \<and> card (unnotified w) < n
     \<longrightarrow> run_close U c e w \<noteq> Undef)"

lemma closers_close_defined:
  assumes cd: "closers_defined U n" and inv: "closing_inv B i w" and i: "i < next_sid w"
    and card: "card (unnotified w) \<le> n"
  shows "close_intern U i err w \<noteq> Undef"
proof (rule close_intern_defined)
  fix c let ?f = "\<lambda>s. s\<lparr>socket_open := False, notified := notified s @ [err]\<rparr>"
  assume o: "socket_open (heap w i)" and u: "onclose (heap w i) = User c"
  have "card (unnotified (on_session i ?f w)) < card (unnotified w)"
    using closing_unnotified [OF inv o] i by (intro notify_card) simp_all
  then show "run_close U c err (on_session i ?f w) \<noteq> Undef"
    using cd closing_notified_inv [OF inv o u, of err] card by (auto simp: closers_defined_def)
qed

lemma closers_perform_defined:
  fixes U :: "('m, 'c, ('m, 'c, 'x) world_scheme) user_code"
  assumes "closers_defined U n" shows "calls_defined U n"
  unfolding calls_defined_def
proof (intro allI impI, elim conjE)
  fix B and w :: "('m, 'c, 'x) world_scheme" and c
  assume inv: "store_inv B w" and v: "valid_call w c" and card: "card (unnotified w) \<le> n"
  show "perform U c w \<noteq> Undef"
  proof (cases c)
    case (Create sock)
    then show ?thesis by (simp add: create_session_def)
  next
    case (Send i m)
    then show ?thesis by (simp add: send_cases Let_def)
  next
    case (Set_onclose i h)
    have "set_onclose U i h w \<noteq> Undef"
    proof (rule set_onclose_defined)
      fix c' :: 'c let ?f = "\<lambda>s. s\<lparr>onclose := User c', notified := notified s @ [no_error]\<rparr>"
      assume e: "onclose (heap w i) = Empty" and o: "\<not> socket_open (heap w i)"
      have "card (unnotified (on_session i ?f w)) < card (unnotified w)"
        using unset_unnotified [OF inv e] v Set_onclose by (intro notify_card) simp_all
      then show "run_close U c' no_error (on_session i ?f w) \<noteq> Undef"
        using assms set_onclose_notified_inv [OF inv e o, of no_error c'] card
        by (auto simp: closers_defined_def)
    qed
    then show ?thesis using Set_onclose by simp
  next
    case (Set_onmessage i h)
    then show ?thesis by (simp add: set_onmessage_def)
  next
    case (Close i)
    then show ?thesis
      using closers_close_defined [OF assms store_inv_closing [OF inv] _ card] v by (simp add: close_def)
  qed
qed

context session_user
begin

lemma run_calls_defined:
  assumes cd: "calls_defined U n" and hs: "handlers_same_sids U"
  shows "no_create cs \<Longrightarrow> store_inv B w \<Longrightarrow> card (unnotified w) \<le> n \<Longrightarrow> run_calls U cs w \<noteq> Undef"
proof (induction cs arbitrary: w)
  case (Cons c cs)
  have nc: "no_create [c]" "no_create cs" using Cons.prems(1) by (auto simp: no_create_def)
  show ?case
  proof (cases "valid_call w c")
    case True
    have d: "perform U c w \<noteq> Undef" using cd Cons.prems(2,3) True by (auto simp: calls_defined_def)
    then obtain w' where w': "swallow (perform U c w) = Ok () w'" by (cases "perform U c w") auto
    have "res_all (keeps B w) (swallow (perform U c w))" "res_all (same_sids w) (swallow (perform U c w))"
      using perform_keeps [OF Cons.prems(2) True] perform_same_sids [OF hs nc(1)] by simp_all
    then have k: "store_inv B w'" "grows w w'" "next_sid w' = next_sid w"
      by (simp_all add: w' keeps_def same_sids_def)
    have "card (unnotified w') \<le> n" using grows_card [OF k(2,3)] Cons.prems(3) by simp
    then show ?thesis using Cons.IH [OF nc(2) k(1)] True w' by simp
  next
    case False
    then show ?thesis using Cons.IH [OF nc(2)] Cons.prems by simp
  qed
qed simp

lemma run_script_defined:
  assumes "calls_defined U n" "handlers_same_sids U" "no_create (fst s)" "store_inv B w"
    and "card (unnotified w) \<le> n"
  shows "run_script U s w \<noteq> Undef"
  using run_calls_defined [OF assms] by (simp add: run_script_def seq_Undef_iff)

end

theorem scripted_defined:
  fixes P :: "('m, 'c, ('m, 'c, 'x) world_scheme) scripts"
  assumes P: "creates_nothing P"
  shows "closers_defined (scripted P n) n"
proof (induction n)
  case (Suc n)
  have "calls_defined (scripted P n) n" by (rule closers_perform_defined) (rule Suc.IH)
  then have run: "run_script (scripted P n) s w \<noteq> Undef"
    if "no_create (fst s)" "store_inv B w" "card (unnotified w) < Suc n"
    for s and w :: "('m, 'c, 'x) world_scheme" and B
    using scripted.run_script_defined scripted_same_sids [OF P] that by (metis less_Suc_eq_le)
  show ?case unfolding closers_defined_def
  proof (intro allI impI, elim conjE)
    fix B and w :: "('m, 'c, 'x) world_scheme" and c e
    assume "store_inv B w" "card (unnotified w) < Suc n"
    then show "run_close (scripted P (Suc n)) c e w \<noteq> Undef"
      using run [of "close_script P c e w" B w] P by (simp add: creates_nothing_def)
  qed
qed (simp add: closers_defined_def)

text \<open>A completion runs at most one message handler more, or closes the session.\<close>

lemma scripted_payload_defined:
  assumes P: "creates_nothing P" and inv: "store_inv B w" and i: "i < next_sid w"
    and k: "k < length (pending (heap w i))" and io: "io_result (pending (heap w i) ! k) err data"
    and card: "card (unnotified w) \<le> n" and op: "fst (pending (heap w i) ! k) = Read_payload m" and ok: "\<not> failed err"
  shows "complete (scripted P (Suc n)) i k err data w \<noteq> Undef"
proof -
  let ?U = "scripted P (Suc n)" and ?h = "\<lambda>s. handed_over (received m k data s)"
  note pr = payload_received [OF store_invD [OF inv, of i] k op io ok]
  have "run_message ?U u msg (on_session i ?h w) \<noteq> Undef" if u: "onmessage (heap w i) = User u" for u msg
  proof -
    have gr: "session_grows (heap w i) (?h (heap w i))"
      using pr(3) u by (auto simp: session_grows_def handed_over_def prefix_def)
    have "store_inv (insert i B) (on_session i ?h w)"
      by (rule store_inv_upd [OF inv]) (use pr(5) [OF u] i in simp_all)
    moreover have "card (unnotified (on_session i ?h w)) \<le> n"
      using grows_card [OF grows_on_session [of w i ?h, OF gr]] card by simp
    ultimately show ?thesis
      using scripted.run_script_defined [OF closers_perform_defined [OF scripted_defined [OF P]]
          scripted_same_sids [OF P]] P
      by (simp add: creates_nothing_def)
  qed
  then show ?thesis unfolding complete_payload_eq [OF op ok pr(2)]
    by (cases "onmessage (heap w i)") (simp_all add: seq_Undef_iff del: scripted.simps)
qed

lemma scripted_closing_defined:
  assumes P: "creates_nothing P" and i: "i < next_sid w" and card: "card (unnotified w) \<le> n"
    and "closing_inv B i (on_session i (\<lambda>s. transfer op data (take_op k s)) w)"
  shows "close_intern (scripted P (Suc n)) i e (on_session i (\<lambda>s. transfer op data (take_op k s)) w) \<noteq> Undef"
proof (rule closers_close_defined [OF scripted_defined [OF P] assms(4)])
  show "card (unnotified (on_session i (\<lambda>s. transfer op data (take_op k s)) w)) \<le> Suc n"
    using grows_card [OF grows_on_session [of w i "\<lambda>s. transfer op data (take_op k s)", OF transfer_grows]] card
    by simp
qed (simp add: i)

lemma scripted_complete_defined:
  assumes P: "creates_nothing P" and inv: "store_inv B w" and i: "i < next_sid w"
    and k: "k < length (pending (heap w i))" and io: "io_result (pending (heap w i) ! k) err data"
    and card: "card (unnotified w) \<le> n"
  shows "complete (scripted P (Suc n)) i k err data w \<noteq> Undef"
proof -
  let ?U = "scripted P (Suc n)" and ?op = "fst (pending (heap w i) ! k)"
  note close = scripted_closing_defined [OF P i card]
  consider "failed err" | "\<not> failed err" "\<not> is_read ?op" | "\<not> failed err" "?op = Read_header"
    | m where "\<not> failed err" "?op = Read_payload m"
    by (cases ?op) auto
  then show ?thesis
  proof cases
    case 1
    have "closing_inv B i (on_session i (\<lambda>s. transfer ?op data (take_op k s)) w)"
      by (rule closing_inv_upd [OF inv]) (rule failed_closable [OF store_invD [OF inv] k io 1])
    from close [OF this] show ?thesis using 1
      by (cases ?op) (simp_all add: complete_def Let_def on_read_header_def on_read_payload_def
          on_write_header_def on_write_payload_def del: scripted.simps)
  next
    case 2
    from scripted.complete_write_keeps [OF inv k 2(2) io 2(1), of P "Suc n"]
    show ?thesis by (auto simp del: scripted.simps)
  next
    case 3
    let ?f = "\<lambda>s. transfer Read_header data (take_op k s)"
    obtain v l where p: "parse_header (message_to_read (?f (heap w i))) 0 = (v, l)" by force
    then show ?thesis using 3 close [OF header_refused_closing [OF inv k 3(2) io 3(1)]]
      by (cases v) (simp_all add: complete_def Let_def on_read_header_def del: scripted.simps)
  next
    case (4 m)
    show ?thesis by (rule scripted_payload_defined [OF P inv i k io card 4(2,1)])
  qed
qed

end
