(* ===== verification/Delivery.thy ===== *)
theory Delivery
  imports Nesting
begin

text \<open>
  What the user of the library gets: the bytes a session puts on the wire are the frames of the
  messages it accepted, in order; an open session that is given the chance writes all of them;
  and a peer that reads these bytes in order delivers these messages in order.
\<close>

section \<open>Writing everything\<close>

text \<open>
  The environment completes the write under way, with success: its place in the pending list is
  the first one that is not a read.
\<close>

definition write_index :: "('m, 'c) session \<Rightarrow> nat" where
  "write_index s = length (takeWhile (\<lambda>p. is_read (fst p)) (pending s))"

fun op_data :: "aop \<Rightarrow> bytes" where
  "op_data (Write_header b) = b"
| "op_data (Write_payload b) = b"
| "op_data _ = []"

definition complete_write ::
    "('m, 'c, ('m, 'c, 'x) world_scheme) user_code \<Rightarrow> sid
     \<Rightarrow> ('m, 'c, 'x) world_scheme \<Rightarrow> (unit, ('m, 'c, 'x) world_scheme) res" where
  "complete_write U i w =
     (let k = write_index (heap w i) in
      if k < length (pending (heap w i))
      then complete U i k no_error (op_data (fst (pending (heap w i) ! k))) w
      else Ok () w)"

primrec flush ::
    "('m, 'c, ('m, 'c, 'x) world_scheme) user_code \<Rightarrow> sid \<Rightarrow> nat
     \<Rightarrow> ('m, 'c, 'x) world_scheme \<Rightarrow> (unit, ('m, 'c, 'x) world_scheme) res" where
  "flush U i 0 w = Ok () w"
| "flush U i (Suc n) w = seq (complete_write U i w) (flush U i n)"

lemma first_match:
  "filter (\<lambda>x. \<not> P x) xs = [y] \<Longrightarrow>
   length (takeWhile P xs) < length xs \<and> xs ! length (takeWhile P xs) = y"
  by (induction xs) (auto split: if_splits)

lemma no_match: "filter (\<lambda>x. \<not> P x) xs = [] \<Longrightarrow> \<not> length (takeWhile P xs) < length xs"
  by (induction xs) (auto split: if_splits)

lemma write_index_writes:
  "writes s = [p] \<Longrightarrow> write_index s < length (pending s) \<and> pending s ! write_index s = p"
  unfolding writes_def write_index_def by (rule first_match)

lemma write_index_none: "writes s = [] \<Longrightarrow> \<not> write_index s < length (pending s)"
  unfolding writes_def write_index_def by (rule no_match)

text \<open>The number of writes an open session has before it.\<close>

definition writing_payload_now :: "('m, 'c) session \<Rightarrow> bool" where
  "writing_payload_now s \<longleftrightarrow> (\<exists>c live. writes s = [(Write_payload c, live)])"

definition writes_left :: "('m, 'c) session \<Rightarrow> nat" where
  "writes_left s = 2 * length (write_queue s) - (if writing_payload_now s then 1 else 0)"

lemma not_failed_no_error [simp]: "\<not> failed no_error"
  by (simp add: failed_def no_error_def)

lemma writes_write_header:
  "writes s = [] \<Longrightarrow> writes (write_header s) =
     (case write_queue s of [] \<Rightarrow> [] | m # _ \<Rightarrow> [(Write_header (header m), socket_open s)])"
  by (simp add: write_header_def writes_async_start split: list.split)

lemma one_write:
  assumes inv: "writer_inv s" and op: "socket_open s" and q: "write_queue s \<noteq> []"
  defines "k \<equiv> write_index s"
  defines "t \<equiv> transfer (fst (pending s ! k)) (op_data (fst (pending s ! k))) (take_op k s)"
  shows "k < length (pending s) \<and> \<not> is_read (fst (pending s ! k))
    \<and> io_result (pending s ! k) no_error (op_data (fst (pending s ! k)))
    \<and> (\<forall>u. written (fst (pending s ! k)) t = Ok () u \<longrightarrow>
        socket_open u \<and> accepted u = accepted s \<and> Suc (writes_left u) = writes_left s)"
  using inv
proof (cases rule: writer_inv.cases)
  case (writing_header c live sent cs)
  note k = write_index_writes [OF writing_header(1)]
  have "writes t = []" unfolding t_def transfer_simps
    using k writing_header take_write(2) [of k s] by (simp add: k_def)
  then show ?thesis
    using k writing_header op by (auto simp: k_def written_def header_written_def write_payload_def
        writes_left_def writing_payload_now_def writes_async_start t_def)
next
  case (writing_payload c live sent cs)
  note k = write_index_writes [OF writing_payload(1)]
  let ?u = "write_header (t\<lparr>write_queue := map message_of cs\<rparr>)"
  have "writes t = []" unfolding t_def transfer_simps
    using k writing_payload take_write(2) [of k s] by (simp add: k_def)
  then have "written (fst (pending s ! k)) t = Ok () ?u" "\<not> writing_payload_now ?u"
    using k writing_payload by (auto simp: k_def written_def payload_written_def t_def
        writing_payload_now_def writes_write_header split: list.split)
  then show ?thesis
    using k writing_payload op by (auto simp: k_def writes_left_def writing_payload_now_def t_def)
qed (use op q in auto)

lemma idle_writer:
  "writer_inv s \<Longrightarrow> write_queue s = [] \<Longrightarrow> writes s = [] \<and> wire_out s = stream (accepted s)"
  by (erule writer_inv.cases) auto

lemma writes_left_0: "writes_left s = 0 \<Longrightarrow> write_queue s = []"
  by (cases "write_queue s") (auto simp: writes_left_def split: if_splits)

lemma reader_inv_stream:
  "reader_inv b s \<Longrightarrow> \<exists>left. wire_in s = stream (frames_in s) @ left \<and> (\<forall>c \<in> set (frames_in s). valid_content c)"
  by (erule reader_inv.cases) auto

text \<open>The two ends of a stream: they may be sessions of different programs.\<close>

lemma end_to_end_sessions:
  fixes r :: "('m, 'c) session" and s :: "('n, 'd) session"
  assumes r: "session_inv False r" and s: "session_inv False s" and wire: "prefix (wire_in r) (wire_out s)"
  shows "prefix (frames_in r) (accepted s)"
proof -
  obtain left where l: "wire_in r = stream (frames_in r) @ left" "\<forall>c \<in> set (frames_in r). valid_content c"
    using reader_inv_stream [OF session_inv_D(2) [OF r]] by blast
  have w: "prefix (wire_out s) (stream (accepted s)) \<and> (\<forall>c \<in> set (accepted s). valid_content c)"
    by (rule writer_inv_prefix [OF session_inv_D(1) [OF s]])
  have "prefix (stream (frames_in r) @ left) (stream (accepted s))"
    using w wire l(1) by (metis prefix_order.trans)
  then show ?thesis using wire.prefix_decode [OF l(2)] w by blast
qed

context session_user
begin

lemma complete_write_step:
  assumes inv: "store_inv B w" and op: "socket_open (heap w i)" and q: "write_queue (heap w i) \<noteq> []"
  shows "\<exists>u. complete_write U i w = Ok () (on_session i (\<lambda>_. u) w) \<and> store_inv B (on_session i (\<lambda>_. u) w)
    \<and> socket_open u \<and> accepted u = accepted (heap w i) \<and> Suc (writes_left u) = writes_left (heap w i)"
proof -
  let ?s = "heap w i" and ?k = "write_index (heap w i)"
  let ?op = "fst (pending ?s ! ?k)"
  let ?t = "\<lambda>s. transfer ?op (op_data ?op) (take_op ?k s)"
  have wi: "writer_inv ?s" using store_invD [OF inv, of i] by (simp add: session_inv_def)
  note k = one_write [OF wi op q]
  obtain u where u: "written ?op (?t ?s) = Ok () u" "session_inv (i \<in> B) u" "session_grows ?s u"
    using write_succeeds [OF store_invD [OF inv, of i], of ?k no_error "op_data ?op"] k by auto
  have "complete_write U i w = call_on i (written ?op) (on_session i ?t w)"
    using k by (cases ?op) (simp_all add: complete_write_def complete_def Let_def written_def call_on_def
        on_write_header_def on_write_payload_def)
  then have "complete_write U i w = Ok () (on_session i (\<lambda>_. u) w)"
    using u(1) by (simp add: call_on_Ok)
  moreover have "store_inv B (on_session i (\<lambda>_. u) w)"
    using keeps_upd [OF inv, of i "\<lambda>_. u"] u(2,3) by (simp add: keeps_def)
  ultimately show ?thesis using k u(1) by blast
qed

lemma flush_drains:
  assumes "store_inv B w" "socket_open (heap w i)" "writes_left (heap w i) \<le> n"
  shows "\<exists>w'. flush U i n w = Ok () w' \<and> write_queue (heap w' i) = [] \<and> socket_open (heap w' i)
    \<and> accepted (heap w' i) = accepted (heap w i) \<and> wire_out (heap w' i) = stream (accepted (heap w i))"
  using assms
proof (induction n arbitrary: w)
  case 0
  then have "write_queue (heap w i) = []" by (simp add: writes_left_0)
  then show ?case using idle_writer [of "heap w i"] store_invD [OF "0.prems"(1), of i] 0
    by (simp add: session_inv_def)
next
  case (Suc n)
  show ?case
  proof (cases "write_queue (heap w i) = []")
    case True
    have "writes (heap w i) = []" "writes_left (heap w i) = 0"
      using idle_writer [OF _ True] store_invD [OF Suc.prems(1), of i] True
      by (auto simp: session_inv_def writes_left_def)
    then show ?thesis using Suc.IH [OF Suc.prems(1,2)] write_index_none [of "heap w i"]
      by (simp add: complete_write_def Let_def)
  next
    case False
    from complete_write_step [OF Suc.prems(1,2) False] obtain u where
      u: "complete_write U i w = Ok () (on_session i (\<lambda>_. u) w)" "store_inv B (on_session i (\<lambda>_. u) w)"
        "socket_open u" "accepted u = accepted (heap w i)" "Suc (writes_left u) = writes_left (heap w i)"
      by blast
    then show ?thesis using Suc.IH [OF u(2)] Suc.prems(3) by simp
  qed
qed

lemma reachable_wire:
  assumes "reachable U w"
  shows "prefix (wire_out (heap w i)) (stream (accepted (heap w i)))"
    and "\<forall>c \<in> set (accepted (heap w i)). valid_content c"
  using writer_inv_prefix reachable_session [OF assms, of i] by (auto simp: session_inv_def)

lemma reachable_decodes:
  assumes "reachable U w"
  shows "frames_in (heap w i) = fst (decode_all parse_frame (wire_in (heap w i)))"
    and "\<forall>c \<in> set (frames_in (heap w i)). valid_content c"
  using reader_inv_decodes [of False "heap w i"] reachable_session [OF assms, of i] by (auto simp: session_inv_def)

lemma reachable_end_to_end:
  "reachable U w \<Longrightarrow> prefix (wire_in (heap w j)) (wire_out (heap w i)) \<Longrightarrow>
   prefix (frames_in (heap w j)) (accepted (heap w i))"
  by (rule end_to_end_sessions [OF reachable_session reachable_session])

lemma reachable_all_delivered:
  assumes r: "reachable U w" and "write_queue (heap w i) = []" "wire_in (heap w j) = wire_out (heap w i)"
  shows "frames_in (heap w j) = accepted (heap w i)"
proof -
  have "wire_out (heap w i) = stream (accepted (heap w i))"
    using idle_writer [of "heap w i"] assms(2) reachable_session [OF r, of i] by (simp add: session_inv_def)
  then show ?thesis
    using reachable_decodes(1) [OF r, of j] assms(3) wire.decode_all_concat [OF reachable_wire(2) [OF r, of i]]
    by simp
qed

end

end
