(* ===== verification/Demo_Run.thy ===== *)
theory Demo_Run
  imports Delivery
begin

text \<open>
  The step relation as an executable run over a list of events, and one concrete run of two
  connected sessions, used to show that the hypotheses of the properties can be met.
\<close>

section \<open>Runs\<close>

datatype ('m, 'c) event = Call "('m, 'c) api_call" | Done sid nat error_code bytes

fun run_event ::
    "('m, 'c, ('m, 'c, 'x) world_scheme) user_code \<Rightarrow> ('m, 'c) event
     \<Rightarrow> ('m, 'c, 'x) world_scheme \<Rightarrow> ('m, 'c, 'x) world_scheme option" where
  "run_event U (Call c) w = (if valid_call w c then state_of (perform U c w) else None)"
| "run_event U (Done i k err data) w =
     (if i < next_sid w \<and> k < length (pending (heap w i)) \<and> io_result (pending (heap w i) ! k) err data
      then state_of (complete U i k err data w) else None)"

fun run_events ::
    "('m, 'c, ('m, 'c, 'x) world_scheme) user_code \<Rightarrow> ('m, 'c) event list
     \<Rightarrow> ('m, 'c, 'x) world_scheme \<Rightarrow> ('m, 'c, 'x) world_scheme option" where
  "run_events U [] w = Some w"
| "run_events U (e # es) w = (case run_event U e w of None \<Rightarrow> None | Some w' \<Rightarrow> run_events U es w')"

lemma run_event_step: "run_event U e w = Some w' \<Longrightarrow> lib_step U w w'"
  by (cases e) (auto split: if_splits intro: lib_step.intros)

lemma run_events_reachable:
  "run_events U es w = Some w' \<Longrightarrow> reachable U w \<Longrightarrow> reachable U w'"
  by (induction es arbitrary: w) (auto split: option.splits dest: run_event_step intro: reachable.step)

lemma lib_step_run_event: "lib_step U w w' \<Longrightarrow> \<exists>e. run_event U e w = Some w'"
proof (induction rule: lib_step.induct)
  case (api w c w')
  then show ?case by (intro exI [of _ "Call c"]) simp
next
  case (io i w k err data w')
  then show ?case by (intro exI [of _ "Done i k err data"]) simp
qed

section \<open>A run\<close>

definition empty_world :: "('m, 'c) world" where
  "empty_world = \<lparr>heap = (\<lambda>_. asio_session False), next_sid = 0\<rparr>"

lemma reachable_empty_world: "reachable U empty_world"
  by (rule reachable.init) (simp add: no_sessions_def empty_world_def)

text \<open>
  Session 0 sends two messages; session 1 answers the first message it gets by closing itself and
  is told so by its close handler, which closes session 0 and throws.
\<close>

definition demo_scripts :: "(nat, nat, (nat, nat) world) scripts" where
  "demo_scripts = \<lparr>message_script = \<lambda>m b w. ([Send 1 b, Close 1], False),
                   close_script = \<lambda>c e w. ([Close 0, Set_onclose 1 No_op], True)\<rparr>"

definition demo_setup :: "(nat, nat) event list" where
  "demo_setup =
     [Call (Create True), Call (Create True),
      Call (Set_onclose 1 (User 5)), Call (Set_onmessage 1 (User 7)),
      Call (Send 0 [72, 105]), Call (Send 0 [33])]"

definition demo_transfer :: "(nat, nat) event list" where
  "demo_transfer =
     [Done 0 0 no_error [0, 0, 0, 2], Done 1 0 no_error [0, 0, 0, 2],
      Done 0 0 no_error [72, 105], Done 1 0 no_error [72, 105]]"

definition demo_user :: "(nat, nat, (nat, nat) world) user_code" where
  "demo_user = scripted demo_scripts 3"

text \<open>The store after the calls, and the store after the first message has been transferred.\<close>

definition demo_mid :: "(nat, nat) world" where
  "demo_mid = the (run_events demo_user demo_setup empty_world)"

definition demo_end :: "(nat, nat) world" where
  "demo_end = the (run_events demo_user demo_transfer demo_mid)"

lemma scripted_unfold:
  "scripted P 3 = \<lparr>run_message = \<lambda>m b w. run_script (scripted P 2) (message_script P m b w) w,
      run_close = \<lambda>c e w. run_script (scripted P 2) (close_script P c e w) w\<rparr>"
  "scripted P 2 = \<lparr>run_message = \<lambda>m b w. run_script (scripted P 1) (message_script P m b w) w,
      run_close = \<lambda>c e w. run_script (scripted P 1) (close_script P c e w) w\<rparr>"
  "scripted P (Suc 0) = \<lparr>run_message = \<lambda>m b w. run_script (scripted P 0) (message_script P m b w) w,
      run_close = \<lambda>c e w. run_script (scripted P 0) (close_script P c e w) w\<rparr>"
  by (simp_all add: numeral_3_eq_3 numeral_2_eq_2)

lemmas demo_defs = empty_world_def demo_scripts_def demo_setup_def demo_transfer_def demo_user_def

lemmas run_defs = create_session_def ignore_def call_on_def send_def com_message_of_def
  asio_session_def set_onclose_def set_onmessage_def read_header_def write_header_def async_start_def
  on_session_def Let_def fun_upd_twist complete_def transfer.simps take_op_def remove_at_def
  on_read_header_def on_write_header_def on_write_payload_def on_read_payload_def header_written_def
  payload_written_def write_payload_def parse_header_def parse_header_loop.simps read_payload_def
  resize_def overwrite_def close_def close_intern_def failed_def no_error_def com_message_default_def
  run_script_def com_max_message_size_def

lemma demo_mid_run: "run_events demo_user demo_setup empty_world = Some demo_mid"
  by (simp add: demo_mid_def demo_defs run_defs scripted_unfold del: scripted.simps)

lemma demo_mid_fields:
  "next_sid demo_mid = 2" "accepted (heap demo_mid 0) = [[72, 105], [33]]"
  "map payload (write_queue (heap demo_mid 0)) = [[72, 105], [33]]"
  "socket_open (heap demo_mid 0)" "socket_open (heap demo_mid (Suc 0))"
  "pending (heap demo_mid 0) = [(Write_header [0, 0, 0, 2], True)]"
  "pending (heap demo_mid (Suc 0)) = [(Read_header, True)]"
  "onclose (heap demo_mid (Suc 0)) = User 5"
  by (simp_all add: demo_mid_def demo_defs run_defs scripted_unfold del: scripted.simps)

lemma demo_end_run: "run_events demo_user demo_transfer demo_mid = Some demo_end"
  by (simp add: demo_end_def demo_mid_def demo_defs run_defs scripted_unfold del: scripted.simps)

lemma demo_end_fields:
  "next_sid demo_end = 2" "accepted (heap demo_end 0) = [[72, 105], [33]]"
  "wire_out (heap demo_end 0) = [0, 0, 0, 2, 72, 105]" "wire_in (heap demo_end (Suc 0)) = [0, 0, 0, 2, 72, 105]"
  "frames_in (heap demo_end (Suc 0)) = [[72, 105]]" "delivered (heap demo_end (Suc 0)) = [[72, 105]]"
  "notified (heap demo_end (Suc 0)) = [no_error]" "accepted (heap demo_end (Suc 0)) = [[72, 105]]"
  "\<not> socket_open (heap demo_end 0)" "\<not> socket_open (heap demo_end (Suc 0))"
  "onmessage (heap demo_end (Suc 0)) = No_op" "onclose (heap demo_end (Suc 0)) = No_op"
  "pending (heap demo_end (Suc 0)) = [(Write_header [0, 0, 0, 2], True), (Read_header, False)]"
  by (simp_all add: demo_end_def demo_mid_def demo_defs run_defs scripted_unfold del: scripted.simps)

lemma reachable_demo:
  "reachable (scripted demo_scripts 3) demo_mid" "reachable (scripted demo_scripts 3) demo_end"
proof -
  show m: "reachable (scripted demo_scripts 3) demo_mid"
    using run_events_reachable [OF demo_mid_run reachable_empty_world] by (simp only: demo_user_def)
  show "reachable (scripted demo_scripts 3) demo_end"
    using run_events_reachable [OF demo_end_run] m by (simp only: demo_user_def)
qed

lemma demo_creates_nothing: "creates_nothing demo_scripts"
  by (simp add: creates_nothing_def demo_scripts_def no_create_def)

text \<open>A second run, whose handlers do nothing: one message is transferred completely.\<close>

definition quiet_scripts :: "(nat, nat, (nat, nat) world) scripts" where
  "quiet_scripts = \<lparr>message_script = \<lambda>m b w. ([], False), close_script = \<lambda>c e w. ([], False)\<rparr>"

definition quiet_run :: "(nat, nat) event list" where
  "quiet_run =
     [Call (Create True), Call (Create True), Call (Set_onmessage 1 (User 7)), Call (Send 0 [72, 105]),
      Done 0 0 no_error [0, 0, 0, 2], Done 1 0 no_error [0, 0, 0, 2],
      Done 0 0 no_error [72, 105], Done 1 0 no_error [72, 105]]"

definition quiet_end :: "(nat, nat) world" where
  "quiet_end = the (run_events (scripted quiet_scripts 3) quiet_run empty_world)"

lemmas quiet_defs = quiet_end_def quiet_run_def quiet_scripts_def empty_world_def

lemma quiet_end_run: "run_events (scripted quiet_scripts 3) quiet_run empty_world = Some quiet_end"
  by (simp add: quiet_defs run_defs scripted_unfold del: scripted.simps)

lemma quiet_end_fields:
  "write_queue (heap quiet_end 0) = []" "wire_in (heap quiet_end (Suc 0)) = wire_out (heap quiet_end 0)"
  "onmessage (heap quiet_end (Suc 0)) = User 7" "accepted (heap quiet_end 0) = [[72, 105]]"
  by (simp_all add: quiet_defs run_defs scripted_unfold del: scripted.simps)

lemma reachable_quiet: "reachable (scripted quiet_scripts 3) quiet_end"
  by (rule run_events_reachable [OF quiet_end_run reachable_empty_world])

end
