(* ===== verification/Library_Properties.thy ===== *)
theory Library_Properties
  imports Demo_Run
begin

text \<open>
  The properties of the library: what holds in every store reachable by any interleaving of calls
  and completions, with handlers that run any script of calls (\<open>scripted P n\<close>).
\<close>

section \<open>Lemmas on single sessions\<close>

lemmas reachable_parts = session_inv_D [OF scripted.reachable_session]

lemma writer_single: "writer_inv s \<Longrightarrow> length (writes s) \<le> 1
  \<and> (socket_open s \<and> write_queue s \<noteq> [] \<longrightarrow> length (writes s) = 1)"
  by (erule writer_inv.cases) auto

lemma reader_single: "reader_inv False s \<Longrightarrow> length (reads s) \<le> 1
  \<and> (socket_open s \<and> onmessage s \<noteq> Empty \<longrightarrow> length (reads s) = 1)"
  by (erule reader_inv.cases) auto

lemma run_events_grows:
  "run_events (scripted P n) es w = Some w' \<Longrightarrow> reachable (scripted P n) w \<Longrightarrow> grows w w'"
proof (induction es arbitrary: w)
  case (Cons e es)
  then obtain w1 where w1: "run_event (scripted P n) e w = Some w1"
    "run_events (scripted P n) es w1 = Some w'" by (auto split: option.splits)
  have st: "lib_step (scripted P n) w w1" by (rule run_event_step) (rule w1(1))
  show ?case
    using scripted.reachable_step_grows [OF Cons.prems(2) st] Cons.IH [OF w1(2)]
      reachable.step [OF Cons.prems(2) st] by (blast intro: grows_trans)
qed simp

text \<open>What closing an open session leaves behind.\<close>

context session_user
begin

lemma close_intern_effect:
  assumes inv: "store_inv B w" and i: "i < next_sid w" and op: "socket_open (heap w i)"
    and res: "state_of (close_intern U i err w) = Some w'"
  shows "\<not> socket_open (heap w' i) \<and> (\<forall>m. onmessage (heap w' i) \<noteq> User m)
    \<and> onclose (heap w' i) = (if onclose (heap w i) = Empty then Empty else No_op)
    \<and> (\<forall>c. onclose (heap w i) = User c \<longrightarrow> notified (heap w' i) = [err])"
proof -
  let ?w1 = "on_session i (\<lambda>s. s\<lparr>socket_open := False\<rparr>) w"
  let ?P = "\<lambda>w3. \<not> socket_open (heap w3 i)
    \<and> onclose (heap w3 i) = (if onclose (heap w i) = Empty then Empty else No_op)
    \<and> (\<forall>c. onclose (heap w i) = User c \<longrightarrow> notified (heap w3 i) = [err])"
  let ?r = "if onclose (heap w i) \<noteq> Empty
     then seq (swallow (invoke_close U i (onclose (heap w i)) err ?w1))
       (\<lambda>w2. Ok () (on_session i (\<lambda>s. s\<lparr>onclose := No_op\<rparr>) w2))
     else Ok () ?w1"
  have "res_all ?P ?r"
  proof (cases "onclose (heap w i)")
    case (User c)
    let ?f = "\<lambda>s. s\<lparr>socket_open := False, notified := notified s @ [err]\<rparr>"
    note cl = store_inv_closing [OF inv, of i]
    note n = closing_unnotified [OF cl op] and wi = closing_notified_inv [OF cl op User, of err]
    have "res_all (keeps B (on_session i ?f w)) (run_close U c err (on_session i ?f w))"
      by (rule run_close_keeps [OF wi])
    then have "res_all (\<lambda>w2. \<not> socket_open (heap w2 i) \<and> notified (heap w2 i) = [err])
        (swallow (invoke_close U i (User c) err ?w1))"
    proof (simp, rule res_all_mono)
      fix w2 assume k: "keeps B (on_session i ?f w) w2"
      then have "session_grows (heap (on_session i ?f w) i) (heap w2 i)"
        using i unfolding keeps_def grows_def next_sid_on_session by blast
      then have "session_grows (?f (heap w i)) (heap w2 i)" by simp
      moreover have "length (notified (heap w2 i)) \<le> 1"
        using store_invD [OF keeps_inv [OF k], of i] by (simp add: session_inv_def closer_inv_def)
      ultimately show "\<not> socket_open (heap w2 i) \<and> notified (heap w2 i) = [err]"
        by (auto simp: session_grows_def n prefix_def)
    qed
    then have "res_all ?P (seq (swallow (invoke_close U i (User c) err ?w1))
        (\<lambda>w2. Ok () (on_session i (\<lambda>s. s\<lparr>onclose := No_op\<rparr>) w2)))"
      by (rule res_all_try_then) (simp add: User)
    then show ?thesis by (simp add: User)
  qed simp_all
  moreover have "close_intern U i err w = seq ?r (\<lambda>w3. Ok () (if onmessage (heap w3 i) \<noteq> Empty
      then on_session i (\<lambda>s. s\<lparr>onmessage := No_op\<rparr>) w3 else w3))"
    using op by (simp add: close_intern_def Let_def)
  moreover have "?r \<noteq> Exc e v" for e v by (simp add: try_then_not_Exc)
  ultimately show ?thesis using res by (cases ?r) (auto split: if_splits)
qed

end

section \<open>The byte stream\<close>

text \<open>
  C5: whatever the handlers do and however calls and completions interleave, a peer that reads the
  bytes of a session in order receives, and its handler is given, a prefix of the messages the
  session accepted, in their order.
\<close>

theorem end_to_end_order:
  assumes "reachable (scripted P n) w"
    and "prefix (wire_in (heap w j)) (wire_out (heap w i))"
  shows "prefix (frames_in (heap w j)) (accepted (heap w i)) \<and> prefix (delivered (heap w j)) (accepted (heap w i))"
proof -
  have "prefix (frames_in (heap w j)) (accepted (heap w i))"
    by (rule scripted.reachable_end_to_end [OF assms])
  moreover have "prefix (delivered (heap w j)) (frames_in (heap w j))"
    using reachable_parts(4) [OF assms(1), of j] by (simp add: delivery_inv_def)
  ultimately show ?thesis by (blast intro: prefix_order.trans)
qed

theorem end_to_end_order_witness:
  "prefix [[72, 105]] (accepted (heap demo_end 0)) \<and> delivered (heap demo_end 1) = [[72, 105]]
   \<and> accepted (heap demo_end 0) = [[72, 105], [33]]"
  using end_to_end_order [OF reachable_demo(2), of 1 0] by (simp add: demo_end_fields)

text \<open>
  C6: when the queue of a session is empty, a peer that has read all its bytes and still has a
  user's message handler has given this handler exactly the accepted messages.
\<close>

theorem everything_is_delivered:
  assumes "reachable (scripted P n) w" and "write_queue (heap w i) = []"
    and "wire_in (heap w j) = wire_out (heap w i)" and "onmessage (heap w j) = User m"
  shows "delivered (heap w j) = accepted (heap w i)"
  using scripted.reachable_all_delivered [OF assms(1-3)] reachable_parts(4) [OF assms(1), of j] assms(4)
  by (simp add: delivery_inv_def)

theorem everything_is_delivered_witness:
  "delivered (heap quiet_end 1) = [[72, 105]]"
  using everything_is_delivered [OF reachable_quiet quiet_end_fields(1-3)] by (simp add: quiet_end_fields)

text \<open>
  C7: the bytes a session has put on the wire are always a prefix of the frames of the messages it
  accepted, one after the other, and every accepted message is within the size limits.
\<close>

theorem wire_carries_frames:
  assumes "reachable (scripted P n) w"
  shows "prefix (wire_out (heap w i)) (concat (map frame_of (accepted (heap w i))))
    \<and> (\<forall>c \<in> set (accepted (heap w i)). c \<noteq> [] \<and> length c \<le> 16777215)"
  using scripted.reachable_wire [OF assms, of i] by (auto simp: valid_content_def)

theorem wire_carries_frames_witness:
  "prefix [0, 0, 0, 2, 72, 105] (concat (map frame_of [[72, 105], [33]]))"
  using wire_carries_frames [OF reachable_demo(2), of 0] by (simp add: demo_end_fields)

text \<open>
  C8: the asynchronous reader refines the reference decoder: the payloads it has received are those
  the decoder finds in the bytes read so far, and a user's handler that is still set has been given
  all of them.
\<close>

theorem reader_refines_decoder:
  assumes "reachable (scripted P n) w"
  shows "frames_in (heap w i) = fst (decode_all parse_frame (wire_in (heap w i)))
    \<and> prefix (delivered (heap w i)) (frames_in (heap w i))
    \<and> ((\<exists>m. onmessage (heap w i) = User m) \<longrightarrow> delivered (heap w i) = frames_in (heap w i))"
  using scripted.reachable_decodes [OF assms, of i] reachable_parts(4) [OF assms, of i]
  by (auto simp: delivery_inv_def)

theorem reader_refines_decoder_witness:
  "fst (decode_all parse_frame [0, 0, 0, 2, 72, 105]) = [[72, 105]]"
  using reader_refines_decoder [OF reachable_demo(2), of 1] by (simp add: demo_end_fields)

text \<open>
  C10: an open session writes everything it has accepted: twice as many successful completions of
  its write under way as messages are queued empty the queue and put all frames on the wire.
\<close>

theorem open_session_flushes:
  assumes "reachable (scripted P n) w" and "socket_open (heap w i)"
  shows "\<exists>w'. flush (scripted P n) i (2 * length (write_queue (heap w i))) w = Ok () w'
    \<and> write_queue (heap w' i) = [] \<and> accepted (heap w' i) = accepted (heap w i)
    \<and> wire_out (heap w' i) = concat (map frame_of (accepted (heap w i)))"
proof -
  have "writes_left (heap w i) \<le> 2 * length (write_queue (heap w i))" by (simp add: writes_left_def)
  from scripted.flush_drains [OF scripted.reachable_inv [OF assms(1)] assms(2) this]
  show ?thesis by blast
qed

theorem open_session_flushes_witness:
  "\<exists>w'. flush (scripted demo_scripts 3) 0 (2 * length (write_queue (heap demo_mid 0))) demo_mid = Ok () w'
    \<and> write_queue (heap w' 0) = [] \<and> wire_out (heap w' 0) = concat (map frame_of [[72, 105], [33]])"
  using open_session_flushes [OF reachable_demo(1) demo_mid_fields(4)]
  by (auto simp: demo_mid_fields(2))

text \<open>
  C14: at any time a session has at most one read and at most one write under way; while it is open,
  a queued message means a write is under way, and a message handler means a read is. The message handlers
  set are not empty functions: setting one, and then another handler, is the case of
  \<open>empty_handler_reads_twice\<close>.
\<close>

theorem one_operation_each_way:
  assumes "reachable (scripted P n) w"
  shows "length (reads (heap w i)) \<le> 1 \<and> length (writes (heap w i)) \<le> 1
    \<and> (socket_open (heap w i) \<and> write_queue (heap w i) \<noteq> [] \<longrightarrow> length (writes (heap w i)) = 1)
    \<and> (socket_open (heap w i) \<and> onmessage (heap w i) \<noteq> Empty \<longrightarrow> length (reads (heap w i)) = 1)"
  using writer_single [OF reachable_parts(1) [OF assms]] reader_single [OF reachable_parts(2) [OF assms]]
  by simp

theorem one_operation_each_way_witness:
  "length (writes (heap demo_mid 0)) \<le> 1 \<and> pending (heap demo_mid 0) = [(Write_header [0, 0, 0, 2], True)]"
  using one_operation_each_way [OF reachable_demo(1), of 0] by (simp add: demo_mid_fields)

section \<open>Handlers\<close>

text \<open>
  Why the handlers must not create sessions there: a close handler that creates a session without a
  connection and sets itself as its close handler is called at once, for the new session, and so on. No
  fuel is enough.
\<close>

definition creating_scripts :: "('m, 'c, ('m, 'c, 'x) world_scheme) scripts" where
  "creating_scripts = \<lparr>message_script = \<lambda>m b w. ([], False),
     close_script = \<lambda>c e w. ([Create False, Set_onclose (next_sid w) (User c)], False)\<rparr>"

lemma creating_handlers_never_return:
  assumes "i < next_sid w" "\<not> socket_open (heap w i)" "onclose (heap w i) = Empty"
  shows "perform (scripted creating_scripts n) (Set_onclose i (User c)) w = Undef"
  using assms
proof (induction n arbitrary: i w)
  case 0
  then show ?case by (simp add: set_onclose_def Let_def)
next
  case (Suc n)
  let ?s = "\<lambda>s. s\<lparr>onclose := User c, notified := notified s @ [no_error]\<rparr>"
  let ?w1 = "on_session i ?s w"
  let ?w2 = "?w1\<lparr>heap := (heap ?w1)(next_sid w := asio_session False), next_sid := Suc (next_sid w)\<rparr>"
  have "perform (scripted creating_scripts n) (Set_onclose (next_sid w) (User c)) ?w2 = Undef"
    by (rule Suc.IH) (simp_all add: asio_session_def)
  then have "run_script (scripted creating_scripts n) ([Create False, Set_onclose (next_sid w) (User c)], False) ?w1 = Undef"
    by (simp add: run_script_def ignore_def create_session_def)
  then show ?case using Suc.prems
    by (simp add: set_onclose_def Let_def creating_scripts_def)
qed

text \<open>
  C9: handlers that create no session may call any method of any session, which may run other handlers,
  and so on: the nesting is bounded. With as much fuel as there are sessions (and one more for
  the message handler) no call and no completion runs out of it, and none has undefined behaviour such
  as \<open>pop\<close> on an empty queue. The program itself may create sessions at any time, outside handlers.
\<close>

theorem nesting_bounded:
  assumes "creates_nothing P" and "reachable (scripted P (Suc n)) w" and "next_sid w \<le> n"
  shows "(valid_call w c \<longrightarrow> perform (scripted P (Suc n)) c w \<noteq> Undef)
    \<and> (i < next_sid w \<and> k < length (pending (heap w i)) \<and> io_result (pending (heap w i) ! k) err data
        \<longrightarrow> complete (scripted P (Suc n)) i k err data w \<noteq> Undef)"
proof (intro conjI impI; (elim conjE)?)
  have inv: "store_inv {} w" by (rule scripted.reachable_inv [OF assms(2)])
  have card: "card (unnotified w) \<le> n" using card_unnotified_le [of w] assms(3) by simp
  show "perform (scripted P (Suc n)) c w \<noteq> Undef" if "valid_call w c"
    using closers_perform_defined [OF scripted_defined [OF assms(1), of "Suc n"]] inv that card
    by (auto simp: calls_defined_def simp del: scripted.simps)
  show "complete (scripted P (Suc n)) i k err data w \<noteq> Undef"
    if "i < next_sid w" "k < length (pending (heap w i))" "io_result (pending (heap w i) ! k) err data"
    by (rule scripted_complete_defined [OF assms(1) inv that card])
qed

theorem nesting_bounded_witness:
  "perform (scripted demo_scripts (Suc 2)) (Close 1) demo_mid \<noteq> Undef"
  using nesting_bounded [OF demo_creates_nothing, of 2 demo_mid "Close 1"] reachable_demo(1)
  by (simp add: demo_mid_fields numeral_3_eq_3 numeral_2_eq_2 del: scripted.simps)

text \<open>
  C12: a user's close handler is called at most once in the life of a session, and only after the
  session was closed.
\<close>

theorem close_handler_at_most_once:
  assumes "reachable (scripted P n) w"
  shows "length (notified (heap w i)) \<le> 1
    \<and> (notified (heap w i) \<noteq> [] \<longrightarrow> \<not> socket_open (heap w i) \<and> onclose (heap w i) \<noteq> Empty)"
  using reachable_parts(3) [OF assms, of i] by (auto simp: closer_inv_def)

theorem close_handler_at_most_once_witness:
  "length (notified (heap demo_end 1)) \<le> 1 \<and> notified (heap demo_end 1) = [no_error]"
  using close_handler_at_most_once [OF reachable_demo(2), of 1] by (simp add: demo_end_fields)

text \<open>
  C11: closing an open session closes the socket, calls the user's close handler exactly once with the
  given error code whatever the handler does, and takes both handlers of the user away.
\<close>

theorem close_runs_handler_once:
  assumes "reachable (scripted P n) w" and "i < next_sid w" and "socket_open (heap w i)"
    and "state_of (close_intern (scripted P n) i err w) = Some w'"
  shows "\<not> socket_open (heap w' i) \<and> (\<forall>m. onmessage (heap w' i) \<noteq> User m)
    \<and> onclose (heap w' i) = (if onclose (heap w i) = Empty then Empty else No_op)
    \<and> (\<forall>c. onclose (heap w i) = User c \<longrightarrow> notified (heap w' i) = [err])"
  by (rule scripted.close_intern_effect [OF scripted.reachable_inv [OF assms(1)] assms(2-4)])

theorem close_runs_handler_once_witness:
  "\<exists>w'. state_of (close_intern (scripted demo_scripts 3) 1 bad_message demo_mid) = Some w'
    \<and> onclose (heap w' 1) = No_op \<and> notified (heap w' 1) = [bad_message]"
proof -
  have "close_intern (scripted demo_scripts 3) 1 bad_message demo_mid \<noteq> Undef"
    by (rule closers_close_defined [OF scripted_defined [OF demo_creates_nothing]
          store_inv_closing [OF scripted.reachable_inv [OF reachable_demo(1)]]])
      (use card_unnotified_le [of demo_mid] in \<open>simp_all add: demo_mid_fields\<close>)
  then obtain w' where w': "state_of (close_intern (scripted demo_scripts 3) 1 bad_message demo_mid) = Some w'"
    by (meson option.exhaust state_of_None)
  from close_runs_handler_once [OF reachable_demo(1) _ _ this] w' show ?thesis
    by (auto simp: demo_mid_fields)
qed

text \<open>
  C13: once the handlers of a session have been replaced on closing, no later call or completion, in
  any number, calls a handler of the user for it again.
\<close>

theorem closed_session_stays_silent:
  assumes "reachable (scripted P n) w" and "i < next_sid w"
    and "run_events (scripted P n) es w = Some w'"
  shows "(onmessage (heap w i) = No_op \<longrightarrow> onmessage (heap w' i) = No_op \<and> delivered (heap w' i) = delivered (heap w i))
    \<and> (onclose (heap w i) = No_op \<longrightarrow> onclose (heap w' i) = No_op \<and> notified (heap w' i) = notified (heap w i))"
proof -
  have "grows w w'" by (rule run_events_grows [OF assms(3,1)])
  then have "session_grows (heap w i) (heap w' i)" using assms(2) by (simp add: grows_def)
  then show ?thesis by (simp add: session_grows_def)
qed

theorem closed_session_stays_silent_witness:
  "\<exists>w'. run_events (scripted demo_scripts 3) [Done 1 1 bad_message [], Call (Close 1)] demo_end = Some w'
    \<and> delivered (heap w' 1) = [[72, 105]]"
proof -
  let ?es = "[Done 1 1 bad_message [], Call (Close 1)] :: (nat, nat) event list"
  have "run_events (scripted demo_scripts 3) ?es demo_end \<noteq> None"
    by (simp add: demo_end_fields complete_def Let_def on_read_header_def close_intern_def close_def
        failed_def bad_message_def EBADMSG_def transfer.simps split: option.split)
  then obtain w' where w': "run_events (scripted demo_scripts 3) ?es demo_end = Some w'" by auto
  from closed_session_stays_silent [OF reachable_demo(2) _ w', of 1] w' show ?thesis
    by (auto simp: demo_end_fields)
qed

section \<open>Sending\<close>

text \<open>
  C21: \<open>send\<close> refuses an empty or too long message and leaves the session as it was; otherwise the
  message goes to the end of the queue, the number of queued messages is returned, and a write is
  started exactly when the queue was empty.
\<close>

theorem send_behaviour:
  "(\<not> (message \<noteq> [] \<and> length message \<le> 16777215)
      \<longrightarrow> send message s = Exc (Runtime_error ''invalid message size'') s)
   \<and> (message \<noteq> [] \<and> length message \<le> 16777215
      \<longrightarrow> (\<exists>t. send message s = Ok (length (write_queue s) + 1) t
          \<and> map payload (write_queue t) = map payload (write_queue s) @ [message]
          \<and> accepted t = accepted s @ [message]
          \<and> pending t = pending s @
              (if write_queue s = [] then [(Write_header (header_of message), socket_open s)] else [])))"
  by (auto simp: send_cases Let_def valid_content_def write_header_def async_start_def)

theorem send_behaviour_witness:
  "\<exists>t. send [72, 105] (asio_session True :: (nat, nat) session) = Ok 1 t
    \<and> pending t = [(Write_header (header_of [72, 105]), True)]"
  using send_behaviour [of "[72, 105]" "asio_session True :: (nat, nat) session"]
  by (auto simp: asio_session_def)

text \<open>
  C22: an empty function is accepted as message handler and starts a read, and as the slot is still
  empty a second call is accepted and starts another one: two header reads are under way at once.
\<close>

theorem empty_handler_reads_twice:
  assumes "onmessage s = Empty"
  shows "\<exists>t u. set_onmessage Empty s = Ok () t \<and> set_onmessage h t = Ok () u
    \<and> reads u = reads s @ [(Read_header, socket_open s), (Read_header, socket_open s)]"
  using assms by (simp add: set_onmessage_def read_header_def reads_async_start)

theorem empty_handler_reads_twice_witness:
  "\<exists>t u. set_onmessage Empty (asio_session True :: (nat, nat) session) = Ok () t
    \<and> set_onmessage (User 0) t = Ok () u \<and> reads u = [(Read_header, True), (Read_header, True)]"
  using empty_handler_reads_twice [of "asio_session True :: (nat, nat) session" "User 0"]
  by (simp add: asio_session_def reads_def)

end
