(* ===== verification/Channel.thy ===== *)
theory Channel
  imports Demo_Run
begin

text \<open>
  The abstract specification of the library: a connection between two programs is a pair of pipes,
  one in each direction, that carry whole messages first in, first out, until the receiving side hangs up.
  Two stores of sessions joined by their byte streams refine it, by a forward simulation: what the
  one side accepts, the other side is given, whatever the handlers of both programs do.
\<close>

section \<open>Forward simulations\<close>

locale forward_simulation =
  fixes inv :: "'s \<Rightarrow> bool" and step :: "'s \<Rightarrow> 's \<Rightarrow> bool"
    and abs :: "'s \<Rightarrow> 'a" and astep :: "'a \<Rightarrow> 'a \<Rightarrow> bool"
  assumes step_inv: "inv s \<Longrightarrow> step s t \<Longrightarrow> inv t"
    and step_refines: "inv s \<Longrightarrow> step s t \<Longrightarrow> astep\<^sup>*\<^sup>* (abs s) (abs t)"
begin

lemma run_refines: "step\<^sup>*\<^sup>* s t \<Longrightarrow> inv s \<Longrightarrow> inv t \<and> astep\<^sup>*\<^sup>* (abs s) (abs t)"
proof (induction rule: rtranclp_induct)
  case (step t u)
  then show ?case using step_inv step_refines by (blast intro: rtranclp_trans)
qed simp

end

section \<open>The specification\<close>

text \<open>
  A pipe: the messages put into it, those not taken out yet, those given to the handler of the
  receiver, and whether the receiver has hung up. After that messages are taken out and lost.
\<close>

record pipe =
  sent :: "bytes list"
  in_flight :: "bytes list"
  received :: "bytes list"
  hung_up :: bool

definition put :: "bytes \<Rightarrow> pipe \<Rightarrow> pipe" where
  "put m p = p\<lparr>sent := sent p @ [m], in_flight := in_flight p @ [m]\<rparr>"

inductive receive :: "pipe \<Rightarrow> pipe \<Rightarrow> bool" where
  give: "in_flight p = m # ms \<Longrightarrow> \<not> hung_up p
    \<Longrightarrow> receive p (p\<lparr>in_flight := ms, received := received p @ [m]\<rparr>)"
| lose: "in_flight p = m # ms \<Longrightarrow> hung_up p \<Longrightarrow> receive p (p\<lparr>in_flight := ms\<rparr>)"
| hang_up: "receive p (p\<lparr>hung_up := True\<rparr>)"

text \<open>A channel: a step of one side puts into the one pipe or receives from the other.\<close>

inductive channel_step :: "pipe \<times> pipe \<Rightarrow> pipe \<times> pipe \<Rightarrow> bool" where
  left_put: "valid_content m \<Longrightarrow> channel_step (p, q) (put m p, q)"
| left_receive: "receive q q' \<Longrightarrow> channel_step (p, q) (p, q')"
| right_put: "valid_content m \<Longrightarrow> channel_step (p, q) (p, put m q)"
| right_receive: "receive p p' \<Longrightarrow> channel_step (p, q) (p', q)"

text \<open>What the specification promises.\<close>

definition fifo :: "pipe \<Rightarrow> bool" where
  "fifo p \<longleftrightarrow> (\<exists>lost. sent p = received p @ lost @ in_flight p \<and> (\<not> hung_up p \<longrightarrow> lost = []))
     \<and> (\<forall>m \<in> set (sent p). valid_content m)"

lemma fifo_put: "fifo p \<Longrightarrow> valid_content m \<Longrightarrow> fifo (put m p)"
  by (auto simp: fifo_def put_def)

lemma fifo_receive: "receive p q \<Longrightarrow> fifo p \<Longrightarrow> fifo q"
  by (induction rule: receive.induct) (auto simp: fifo_def)

lemma channel_step_fifo: "channel_step c d \<Longrightarrow> fifo (fst c) \<and> fifo (snd c) \<Longrightarrow> fifo (fst d) \<and> fifo (snd d)"
  by (induction rule: channel_step.induct) (auto intro: fifo_put fifo_receive)

lemma channel_run_fifo:
  "channel_step\<^sup>*\<^sup>* c d \<Longrightarrow> fifo (fst c) \<and> fifo (snd c) \<Longrightarrow> fifo (fst d) \<and> fifo (snd d)"
  by (induction rule: rtranclp_induct) (auto dest: channel_step_fifo)

section \<open>Refinement of one pipe\<close>

definition pipe_of :: "('m, 'c) session \<Rightarrow> ('n, 'd) session \<Rightarrow> pipe" where
  "pipe_of a b = \<lparr>sent = accepted a, in_flight = drop (length (frames_in b)) (accepted a),
     received = delivered b, hung_up = (onmessage b = No_op)\<rparr>"

lemma puts:
  assumes "\<forall>m \<in> set ms. valid_content m"
  shows "(\<lambda>p q. \<exists>m. valid_content m \<and> q = put m p)\<^sup>*\<^sup>* p (p\<lparr>sent := sent p @ ms, in_flight := in_flight p @ ms\<rparr>)"
  using assms
proof (induction ms arbitrary: p)
  case (Cons m ms)
  then show ?case
    using Cons.IH [of "put m p"] by (intro converse_rtranclp_into_rtranclp [of _ p "put m p"]) (auto simp: put_def)
qed simp

lemma gives:
  "\<not> hung_up p \<Longrightarrow> in_flight p = ms @ rest
   \<Longrightarrow> receive\<^sup>*\<^sup>* p (p\<lparr>in_flight := rest, received := received p @ ms\<rparr>)"
proof (induction ms arbitrary: p)
  case (Cons m ms)
  let ?q = "p\<lparr>in_flight := ms @ rest, received := received p @ [m]\<rparr>"
  have "receive p ?q" using Cons.prems by (intro receive.give) simp_all
  then show ?case using Cons.IH [of ?q] Cons.prems by (simp add: converse_rtranclp_into_rtranclp)
next
  case Nil
  then have "p\<lparr>in_flight := rest, received := received p @ []\<rparr> = p" by (cases p) simp
  then show ?case by simp
qed

lemma loses: "hung_up p \<Longrightarrow> in_flight p = ms @ rest \<Longrightarrow> receive\<^sup>*\<^sup>* p (p\<lparr>in_flight := rest\<rparr>)"
proof (induction ms arbitrary: p)
  case (Cons m ms)
  let ?q = "p\<lparr>in_flight := ms @ rest\<rparr>"
  have "receive p ?q" using Cons.prems by (intro receive.lose) simp_all
  then show ?case using Cons.IH [of ?q] Cons.prems by (simp add: converse_rtranclp_into_rtranclp)
next
  case Nil
  then have "p\<lparr>in_flight := rest\<rparr> = p" by (cases p) simp
  then show ?case by simp
qed

text \<open>A handler that is not taken away has been given everything: before one is set nothing is read.\<close>

lemma listening:
  assumes "session_inv False s" "onmessage s \<noteq> No_op"
  shows "delivered s = frames_in s"
proof (cases "onmessage s")
  case Empty
  then have "frames_in s = []" using session_inv_D(2) [OF assms(1)] by (auto elim: reader_inv.cases)
  then show ?thesis using session_inv_D(4) [OF assms(1)] by (simp add: delivery_inv_def)
qed (use assms session_inv_D(4) [OF assms(1)] in \<open>auto simp: delivery_inv_def\<close>)

lemma receiver_refines:
  assumes b: "session_inv False b" "session_inv False b'" and g: "session_grows b b'"
    and acc: "prefix (frames_in b') (accepted a)"
  shows "receive\<^sup>*\<^sup>* (pipe_of a b) (pipe_of a b')"
proof -
  obtain ms where ms: "frames_in b' = frames_in b @ ms" using g by (auto simp: session_grows_def prefix_def)
  obtain rest where rest: "accepted a = frames_in b @ ms @ rest" using acc ms by (auto simp: prefix_def)
  show ?thesis
  proof (cases "onmessage b = No_op")
    case True
    then show ?thesis using loses [of "pipe_of a b" ms rest] ms rest g
      by (simp add: pipe_of_def session_grows_def)
  next
    case False
    obtain xs ys where xs: "ms = xs @ ys" "delivered b' = delivered b @ xs"
      using listening [OF b(1) False] ms g session_inv_D(4) [OF b(2)]
      by (auto simp: session_grows_def delivery_inv_def prefix_def)
    have gv: "receive\<^sup>*\<^sup>* (pipe_of a b) (pipe_of a b\<lparr>in_flight := ys @ rest, received := delivered b'\<rparr>)"
      using gives [of "pipe_of a b" xs "ys @ rest"] False rest xs by (simp add: pipe_of_def)
    show ?thesis
    proof (cases "onmessage b' = No_op")
      case True
      let ?p = "pipe_of a b\<lparr>in_flight := ys @ rest, received := delivered b', hung_up := True\<rparr>"
      have "receive (pipe_of a b\<lparr>in_flight := ys @ rest, received := delivered b'\<rparr>) ?p" by (rule hang_up)
      moreover have "receive\<^sup>*\<^sup>* ?p (pipe_of a b')"
        using loses [of ?p ys rest] True ms rest xs by (simp add: pipe_of_def)
      ultimately show ?thesis by (rule rtranclp_trans [OF gv converse_rtranclp_into_rtranclp])
    next
      case no: False
      then have "ys = []" using listening [OF b(2) no] listening [OF b(1) False] ms xs by simp
      then show ?thesis using gv no False ms rest xs by (simp add: pipe_of_def)
    qed
  qed
qed

lemma sender_refines:
  assumes a': "session_inv False a'" and g: "session_grows a a'" and acc: "prefix (frames_in b) (accepted a)"
  shows "(\<lambda>p q. \<exists>m. valid_content m \<and> q = put m p)\<^sup>*\<^sup>* (pipe_of a b) (pipe_of a' b)"
proof -
  obtain ms where ms: "accepted a' = accepted a @ ms" using g by (auto simp: session_grows_def prefix_def)
  have "\<forall>m \<in> set ms. valid_content m" using writer_inv_prefix [OF session_inv_D(1) [OF a']] ms by auto
  moreover have "length (frames_in b) \<le> length (accepted a)" by (rule prefix_length_le [OF acc])
  ultimately show ?thesis using puts [of ms "pipe_of a b"] ms by (simp add: pipe_of_def)
qed

section \<open>Two programs and a connection\<close>

text \<open>
  Session \<open>i\<close> of one program is connected with session \<open>j\<close> of another one: each reads, in order, bytes
  the other has written. A step is any call or completion in either program that respects this.
\<close>

definition wired :: "sid \<Rightarrow> sid \<Rightarrow> ('m, 'c, 'x) world_scheme \<Rightarrow> ('n, 'd, 'y) world_scheme \<Rightarrow> bool" where
  "wired i j w v \<longleftrightarrow> prefix (wire_in (heap v j)) (wire_out (heap w i)) \<and> prefix (wire_in (heap w i)) (wire_out (heap v j))"

inductive link_step ::
    "('m, 'c, ('m, 'c, 'x) world_scheme) user_code \<Rightarrow> ('n, 'd, ('n, 'd, 'y) world_scheme) user_code \<Rightarrow> sid \<Rightarrow> sid
     \<Rightarrow> ('m, 'c, 'x) world_scheme \<times> ('n, 'd, 'y) world_scheme
     \<Rightarrow> ('m, 'c, 'x) world_scheme \<times> ('n, 'd, 'y) world_scheme \<Rightarrow> bool" for U V i j where
  left: "lib_step U w w' \<Longrightarrow> wired i j w' v \<Longrightarrow> link_step U V i j (w, v) (w', v)"
| right: "lib_step V v v' \<Longrightarrow> wired i j w v' \<Longrightarrow> link_step U V i j (w, v) (w, v')"

definition linked ::
    "('m, 'c, ('m, 'c, 'x) world_scheme) user_code \<Rightarrow> ('n, 'd, ('n, 'd, 'y) world_scheme) user_code \<Rightarrow> sid \<Rightarrow> sid
     \<Rightarrow> ('m, 'c, 'x) world_scheme \<times> ('n, 'd, 'y) world_scheme \<Rightarrow> bool" where
  "linked U V i j s \<longleftrightarrow> reachable U (fst s) \<and> reachable V (snd s) \<and> i < next_sid (fst s) \<and> j < next_sid (snd s)
     \<and> wired i j (fst s) (snd s)"

text \<open>The abstraction: the pipe from left to right and the pipe from right to left.\<close>

definition channel_of ::
    "sid \<Rightarrow> sid \<Rightarrow> ('m, 'c, 'x) world_scheme \<times> ('n, 'd, 'y) world_scheme \<Rightarrow> pipe \<times> pipe" where
  "channel_of i j s = (let a = heap (fst s) i; b = heap (snd s) j in (pipe_of a b, pipe_of b a))"

lemma wired_swap: "wired i j w v \<longleftrightarrow> wired j i v w"
  by (auto simp: wired_def)

lemma channel_puts:
  assumes "(\<lambda>p q. \<exists>m. valid_content m \<and> q = put m p)\<^sup>*\<^sup>* p p'"
  shows "channel_step\<^sup>*\<^sup>* (p, q) (p', q)" "channel_step\<^sup>*\<^sup>* (q, p) (q, p')"
  using assms by (induction rule: rtranclp_induct; auto intro: channel_step.intros rtranclp.rtrancl_into_rtrancl)+

lemma channel_receives:
  assumes "receive\<^sup>*\<^sup>* p p'"
  shows "channel_step\<^sup>*\<^sup>* (p, q) (p', q)" "channel_step\<^sup>*\<^sup>* (q, p) (q, p')"
  using assms by (induction rule: rtranclp_induct; auto intro: channel_step.intros rtranclp.rtrancl_into_rtrancl)+

text \<open>One side moves: it puts into its outgoing pipe and receives from its incoming one.\<close>

lemma side_refines:
  assumes inv: "session_inv False a" "session_inv False a'" "session_inv False b" and g: "session_grows a a'"
    and wires: "prefix (wire_in b) (wire_out a)" "prefix (wire_in a') (wire_out b)"
  shows "channel_step\<^sup>*\<^sup>* (pipe_of a b, pipe_of b a) (pipe_of a' b, pipe_of b a')"
    and "channel_step\<^sup>*\<^sup>* (pipe_of b a, pipe_of a b) (pipe_of b a', pipe_of a' b)"
proof -
  note p = sender_refines [OF inv(2) g end_to_end_sessions [OF inv(3,1) wires(1)]]
    and q = receiver_refines [OF inv(1,2) g end_to_end_sessions [OF inv(2,3) wires(2)]]
  show "channel_step\<^sup>*\<^sup>* (pipe_of a b, pipe_of b a) (pipe_of a' b, pipe_of b a')"
    by (rule rtranclp_trans [OF channel_puts(1) [OF p] channel_receives(2) [OF q]])
  show "channel_step\<^sup>*\<^sup>* (pipe_of b a, pipe_of a b) (pipe_of b a', pipe_of a' b)"
    by (rule rtranclp_trans [OF channel_puts(2) [OF p] channel_receives(1) [OF q]])
qed

context session_user
begin

lemma lib_step_side:
  assumes "reachable U w" "lib_step U w w'" "i < next_sid w"
  shows "session_inv False (heap w i)" "session_inv False (heap w' i)" "session_grows (heap w i) (heap w' i)"
    "reachable U w'" "i < next_sid w'"
  using reachable_session [OF assms(1)] reachable_session [OF reachable.step [OF assms(1,2)]]
    reachable_step_grows [OF assms(1,2)] reachable.step [OF assms(1,2)] assms(3)
  by (auto simp: grows_def)

end

lemma fresh_fifo:
  assumes "session_inv False a" "session_inv False b" "prefix (wire_in b) (wire_out a)" "accepted a = []"
  shows "fifo (pipe_of a b)"
proof -
  have "frames_in b = []" using end_to_end_sessions [OF assms(2,1,3)] assms(4) by simp
  then show ?thesis using session_inv_D(4) [OF assms(2)] assms(4)
    by (simp add: fifo_def pipe_of_def delivery_inv_def)
qed

lemma linked_fresh_fifo:
  assumes "session_user U" "session_user V" "linked U V i j s"
    and "accepted (heap (fst s) i) = []" "accepted (heap (snd s) j) = []"
  shows "fifo (fst (channel_of i j s)) \<and> fifo (snd (channel_of i j s))"
proof -
  have inv: "session_inv False (heap (fst s) i)" "session_inv False (heap (snd s) j)" "wired i j (fst s) (snd s)"
    using assms session_user.reachable_session by (auto simp: linked_def)
  then show ?thesis
    using fresh_fifo [OF inv(1,2)] fresh_fifo [OF inv(2,1)] assms(4,5)
    by (simp add: wired_def channel_of_def Let_def)
qed

lemma link_simulation:
  assumes U: "session_user U" and V: "session_user V"
  shows "forward_simulation (linked U V i j) (link_step U V i j) (channel_of i j) channel_step"
proof
  fix s t assume inv: "linked U V i j s" and "link_step U V i j s t"
  from this(2) inv have "linked U V i j t \<and> channel_step\<^sup>*\<^sup>* (channel_of i j s) (channel_of i j t)"
  proof (induction rule: link_step.induct)
    case (left w w' v)
    then have l: "reachable U w" "reachable V v" "i < next_sid w" "j < next_sid v" "wired i j w v"
      by (simp_all add: linked_def)
    note step = session_user.lib_step_side [OF U l(1) left(1) l(3)]
    show ?case
      using left(2) step l side_refines(1) [OF step(1,2) session_user.reachable_session [OF V l(2)] step(3)]
      by (simp add: linked_def wired_def channel_of_def Let_def)
  next
    case (right v v' w)
    then have l: "reachable U w" "reachable V v" "i < next_sid w" "j < next_sid v" "wired i j w v"
      by (simp_all add: linked_def)
    note step = session_user.lib_step_side [OF V l(2) right(1) l(4)]
    show ?case
      using right(2) step l side_refines(2) [OF step(1,2) session_user.reachable_session [OF U l(1)] step(3)]
      by (simp add: linked_def wired_def channel_of_def Let_def)
  qed
  then show "linked U V i j t" "channel_step\<^sup>*\<^sup>* (channel_of i j s) (channel_of i j t)" by blast+
qed

interpretation link: forward_simulation "linked (scripted P n) (scripted Q m) i j"
    "link_step (scripted P n) (scripted Q m) i j" "channel_of i j" channel_step for P n Q m i j
  by (rule link_simulation [OF session_user_scripted session_user_scripted])

section \<open>A run of two programs\<close>

fun link_event ::
    "('m, 'c, ('m, 'c, 'x) world_scheme) user_code \<Rightarrow> ('n, 'd, ('n, 'd, 'y) world_scheme) user_code \<Rightarrow> sid \<Rightarrow> sid
     \<Rightarrow> ('m, 'c) event + ('n, 'd) event \<Rightarrow> ('m, 'c, 'x) world_scheme \<times> ('n, 'd, 'y) world_scheme
     \<Rightarrow> (('m, 'c, 'x) world_scheme \<times> ('n, 'd, 'y) world_scheme) option" where
  "link_event U V i j (Inl e) (w, v) =
     (case run_event U e w of None \<Rightarrow> None | Some w' \<Rightarrow> if wired i j w' v then Some (w', v) else None)"
| "link_event U V i j (Inr e) (w, v) =
     (case run_event V e v of None \<Rightarrow> None | Some v' \<Rightarrow> if wired i j w v' then Some (w, v') else None)"

fun link_run ::
    "('m, 'c, ('m, 'c, 'x) world_scheme) user_code \<Rightarrow> ('n, 'd, ('n, 'd, 'y) world_scheme) user_code \<Rightarrow> sid \<Rightarrow> sid
     \<Rightarrow> (('m, 'c) event + ('n, 'd) event) list \<Rightarrow> ('m, 'c, 'x) world_scheme \<times> ('n, 'd, 'y) world_scheme
     \<Rightarrow> (('m, 'c, 'x) world_scheme \<times> ('n, 'd, 'y) world_scheme) option" where
  "link_run U V i j [] s = Some s"
| "link_run U V i j (e # es) s = (case link_event U V i j e s of None \<Rightarrow> None | Some t \<Rightarrow> link_run U V i j es t)"

lemma link_event_step: "link_event U V i j e s = Some t \<Longrightarrow> link_step U V i j s t"
  by (cases "(U, V, i, j, e, s)" rule: link_event.cases)
    (auto split: option.splits if_splits intro: link_step.intros run_event_step)

lemma link_run_steps: "link_run U V i j es s = Some t \<Longrightarrow> (link_step U V i j)\<^sup>*\<^sup>* s t"
  by (induction es arbitrary: s)
    (auto split: option.splits dest: link_event_step intro: converse_rtranclp_into_rtranclp)

text \<open>
  The left program sends two messages; the right one sends the first message back and closes its
  session.
\<close>

definition pong_scripts :: "(nat, nat, (nat, nat) world) scripts" where
  "pong_scripts = \<lparr>message_script = \<lambda>m b w. ([Send 0 b, Close 0], False), close_script = \<lambda>c e w. ([], False)\<rparr>"

definition link_begin :: "(nat, nat) world \<times> (nat, nat) world" where
  "link_begin =
     (let w = the (run_events (scripted pong_scripts 3) [Call (Create True), Call (Set_onmessage 0 (User 1))] empty_world)
      in (w, w))"

definition link_events :: "((nat, nat) event + (nat, nat) event) list" where
  "link_events =
     [Inl (Call (Send 0 [72, 105])), Inl (Call (Send 0 [33])), Inl (Done 0 1 no_error [0, 0, 0, 2]),
      Inl (Done 0 1 no_error [72, 105]), Inr (Done 0 0 no_error [0, 0, 0, 2]), Inr (Done 0 0 no_error [72, 105])]"

definition link_end :: "(nat, nat) world \<times> (nat, nat) world" where
  "link_end = the (link_run (scripted pong_scripts 3) (scripted pong_scripts 3) 0 0 link_events link_begin)"

lemmas link_run_defs = link_begin_def link_events_def link_end_def pong_scripts_def empty_world_def wired_def

lemma link_begin_run:
  "run_events (scripted pong_scripts 3) [Call (Create True), Call (Set_onmessage 0 (User 1))] empty_world
     = Some (fst link_begin)"
  "snd link_begin = fst link_begin" "next_sid (fst link_begin) = 1"
  "accepted (heap (fst link_begin) 0) = []" "wire_in (heap (fst link_begin) 0) = []"
  by (simp_all add: link_run_defs run_defs scripted_unfold del: scripted.simps)

lemma link_end_run:
  "link_run (scripted pong_scripts 3) (scripted pong_scripts 3) 0 0 link_events link_begin = Some link_end"
  by (simp add: link_run_defs run_defs scripted_unfold del: scripted.simps)

lemma link_end_channel:
  "channel_of 0 0 link_end =
     (\<lparr>sent = [[72, 105], [33]], in_flight = [[33]], received = [[72, 105]], hung_up = True\<rparr>,
      \<lparr>sent = [[72, 105]], in_flight = [[72, 105]], received = [], hung_up = False\<rparr>)"
  by (simp add: link_run_defs run_defs scripted_unfold channel_of_def pipe_of_def del: scripted.simps)

lemma link_begin_linked: "linked (scripted pong_scripts 3) (scripted pong_scripts 3) 0 0 link_begin"
  using run_events_reachable [OF link_begin_run(1) reachable_empty_world] link_begin_run
  by (simp add: linked_def wired_def)

section \<open>The refinement\<close>

text \<open>
  C2: two programs whose handlers do anything, joined by a byte stream in each direction, refine the
  channel of two pipes of messages: every interleaving of their calls and completions is a sequence
  of puts, gives, losses and hanging up; and from a new connection on, each pipe is first in, first out
  and loses nothing while its receiver has not hung up.
\<close>

theorem link_refines_channel:
  assumes "linked (scripted P n) (scripted Q m) i j s" and "(link_step (scripted P n) (scripted Q m) i j)\<^sup>*\<^sup>* s t"
    and "accepted (heap (fst s) i) = []" "accepted (heap (snd s) j) = []"
  shows "channel_step\<^sup>*\<^sup>* (channel_of i j s) (channel_of i j t)
    \<and> fifo (fst (channel_of i j t)) \<and> fifo (snd (channel_of i j t))"
proof -
  have "fifo (fst (channel_of i j s)) \<and> fifo (snd (channel_of i j s))"
    using linked_fresh_fifo [OF session_user_scripted session_user_scripted assms(1,3,4)] .
  moreover have run: "channel_step\<^sup>*\<^sup>* (channel_of i j s) (channel_of i j t)"
    using link.run_refines [OF assms(2,1)] by blast
  ultimately show ?thesis using channel_run_fifo [OF run] by blast
qed

theorem link_refines_channel_witness:
  "channel_step\<^sup>*\<^sup>* (channel_of 0 0 link_begin) (channel_of 0 0 link_end) \<and> fifo (fst (channel_of 0 0 link_end))
   \<and> received (fst (channel_of 0 0 link_end)) = [[72, 105]] \<and> in_flight (fst (channel_of 0 0 link_end)) = [[33]]"
  using link_refines_channel [OF link_begin_linked link_run_steps [OF link_end_run]]
  by (simp add: link_begin_run) (simp add: link_end_channel)

end
