(* ===== verification/Passive_User.thy ===== *)
theory Passive_User
  imports Demo_Run
begin

text \<open>
  Programs whose close handlers call no method of a session: all the servers and clients of the
  examples. For them closing has an explicit result and the completion of an operation one of three
  outcomes. The contract \<open>passive_user\<close> is what such a program provides; it implies the contract
  \<open>session_user\<close> of the library.
\<close>

section \<open>What a program sees of a session\<close>

definition same_face :: "('m, 'c) session \<Rightarrow> ('m, 'c) session \<Rightarrow> bool" where
  "same_face s t \<longleftrightarrow> socket_open t = socket_open s \<and> onmessage t = onmessage s \<and> onclose t = onclose s
     \<and> accepted t = accepted s \<and> delivered t = delivered s \<and> notified t = notified s"

lemma same_faceD:
  assumes "same_face s t"
  shows "socket_open t = socket_open s" "onmessage t = onmessage s" "onclose t = onclose s"
    "accepted t = accepted s" "delivered t = delivered s" "notified t = notified s"
  using assms by (simp_all add: same_face_def)

lemma same_face_refl [simp]: "same_face s s"
  by (simp add: same_face_def)

lemma same_face_transfer: "same_face s (transfer op data (take_op k s))"
  by (cases op) (simp_all add: same_face_def take_op_def Let_def)

lemma same_face_read_header: "same_face s (read_header s)"
  by (simp add: same_face_def)

text \<open>A session after it was closed with an error code.\<close>

definition closed_by :: "error_code \<Rightarrow> ('m, 'c) session \<Rightarrow> ('m, 'c) session" where
  "closed_by err s = s\<lparr>socket_open := False,
     notified := (case onclose s of User c \<Rightarrow> notified s @ [err] | _ \<Rightarrow> notified s),
     onclose := (if onclose s = Empty then Empty else No_op),
     onmessage := (if onmessage s = Empty then Empty else No_op)\<rparr>"

lemma closed_by_simps [simp]:
  "socket_open (closed_by err s) = False"
  "onclose (closed_by err s) = (if onclose s = Empty then Empty else No_op)"
  "onmessage (closed_by err s) = (if onmessage s = Empty then Empty else No_op)"
  "accepted (closed_by err s) = accepted s" "delivered (closed_by err s) = delivered s"
  by (simp_all add: closed_by_def)

lemma keep_handlers [simp]:
  "onclose s = h \<Longrightarrow> s\<lparr>onclose := h\<rparr> = s" "onmessage s = g \<Longrightarrow> s\<lparr>onmessage := g\<rparr> = s"
  by (cases s; simp)+

lemma on_session_eq: "f (heap w i) = g (heap w i) \<Longrightarrow> on_session i f w = on_session i g w"
  by (simp add: on_session_def)

lemma written_face: "written op t = Ok () u \<Longrightarrow> same_face t u"
  by (auto simp: written_def same_face_def header_written_def payload_written_def split: aop.splits list.splits)

lemma received_payload_valid:
  assumes "store_inv {} w" "k < length (pending (heap w i))" "fst (pending (heap w i) ! k) = Read_payload n"
    and "io_result (pending (heap w i) ! k) err data" "\<not> failed err" "onmessage (heap w i) = User m"
  shows "valid_content (payload (message_to_read (received n k data (heap w i))))"
proof -
  let ?r = "received n k data (heap w i)"
  have "session_inv True (handed_over ?r)"
    using payload_received(5) [OF store_invD [OF assms(1)] assms(2-6)] .
  then have "\<forall>c \<in> set (frames_in (handed_over ?r)). valid_content c"
    using reader_inv_decodes by (auto simp: session_inv_def)
  then show ?thesis by (simp add: handed_over_def received_def Let_def)
qed

section \<open>The contract\<close>

text \<open>
  The handler for closing either has undefined behaviour or returns and changes only what the
  program keeps beside the sessions.
\<close>

locale passive_user =
  fixes U :: "('m, 'c, ('m, 'c, 'x) world_scheme) user_code"
    and may_close :: "'c \<Rightarrow> ('m, 'c, 'x) world_scheme \<Rightarrow> bool"
    and after_close :: "'c \<Rightarrow> ('m, 'c, 'x) world_scheme \<Rightarrow> ('m, 'c, 'x) world_scheme"
  assumes run_close_eq: "run_close U c err w = (if may_close c w then Ok () (after_close c w) else Undef)"
    and may_close_local: "may_close c (on_session i f w) = may_close c w"
    and after_close_local: "after_close c (on_session i f w) = on_session i f (after_close c w)"
    and after_close_heap: "heap (after_close c w) = heap w"
    and after_close_next: "next_sid (after_close c w) = next_sid w"
    and run_message_ok: "store_inv B w \<Longrightarrow> res_all (keeps B w) (run_message U m message w)"

sublocale passive_user \<subseteq> session_user U
proof
  fix B c err and w :: "('m, 'c, 'x) world_scheme"
  assume inv: "store_inv B w"
  then have "store_inv B (after_close c w)" "grows w (after_close c w)"
    by (simp_all add: store_inv_def grows_def after_close_heap after_close_next)
  then show "res_all (keeps B w) (run_close U c err w)"
    by (simp add: run_close_eq keeps_def)
qed (rule run_message_ok)

context passive_user
begin

definition close_effect :: "sid \<Rightarrow> ('m, 'c, 'x) world_scheme \<Rightarrow> ('m, 'c, 'x) world_scheme" where
  "close_effect i w = (case onclose (heap w i) of User c \<Rightarrow> after_close c w | _ \<Rightarrow> w)"

definition closing_allowed :: "sid \<Rightarrow> ('m, 'c, 'x) world_scheme \<Rightarrow> bool" where
  "closing_allowed i w \<longleftrightarrow> (\<forall>c. onclose (heap w i) = User c \<longrightarrow> may_close c w)"

lemma heap_close_effect [simp]: "heap (close_effect i w) = heap w"
  by (simp add: close_effect_def after_close_heap split: func.split)

lemma next_sid_close_effect [simp]: "next_sid (close_effect i w) = next_sid w"
  by (simp add: close_effect_def after_close_next split: func.split)

lemma close_effect_local:
  "onclose (f (heap w i)) = onclose (heap w i) \<Longrightarrow>
   close_effect i (on_session i f w) = on_session i f (close_effect i w)"
  by (simp add: close_effect_def after_close_local split: func.split)

lemma closing_allowed_local:
  "onclose (f (heap w i)) = onclose (heap w i) \<Longrightarrow>
   closing_allowed i (on_session i f w) = closing_allowed i w"
  by (simp add: closing_allowed_def may_close_local)

lemma close_intern_eq:
  assumes "closing_allowed i w"
  shows "close_intern U i err w =
    (if socket_open (heap w i) then Ok () (on_session i (closed_by err) (close_effect i w)) else Ok () w)"
proof (cases "socket_open (heap w i)")
  case True
  show ?thesis
  proof (cases "onclose (heap w i)")
    case (User c)
    then have "may_close c w" using assms by (simp add: closing_allowed_def)
    then show ?thesis using True User
      by (auto simp: close_intern_def Let_def run_close_eq may_close_local after_close_local after_close_heap
          close_effect_def closed_by_def intro!: on_session_eq)
  qed (use True in \<open>auto simp: close_intern_def Let_def close_effect_def on_session_def closed_by_def\<close>)
qed (simp add: close_intern_def)

section \<open>The outcomes of a completion\<close>

lemma complete_write_silent:
  assumes inv: "store_inv {} w" and k: "k < length (pending (heap w i))"
    and wr: "\<not> is_read (fst (pending (heap w i) ! k))"
    and io: "io_result (pending (heap w i) ! k) err data" and ok: "\<not> failed err"
  shows "\<exists>s. complete U i k err data w = Ok () (on_session i (\<lambda>_. s) w) \<and> same_face (heap w i) s"
proof -
  let ?op = "fst (pending (heap w i) ! k)"
  let ?t = "transfer ?op data (take_op k (heap w i))"
  obtain u where u: "written ?op ?t = Ok () u"
    using write_succeeds [OF store_invD [OF inv] k wr io ok] by auto
  have "complete U i k err data w = call_on i (written ?op) (on_session i (\<lambda>s. transfer ?op data (take_op k s)) w)"
    using ok wr by (cases ?op) (simp_all add: complete_def Let_def written_def call_on_def
        on_write_header_def on_write_payload_def)
  also have "\<dots> = Ok () (on_session i (\<lambda>_. u) w)" using u by (simp add: call_on_Ok)
  finally show ?thesis
    using written_face [OF u] same_face_transfer [of "heap w i" ?op data k] by (auto simp: same_face_def)
qed

text \<open>
  A payload has arrived: a message handler of the program is given it, and the next read starts.
\<close>

lemma complete_payload_outcome:
  assumes inv: "store_inv {} w" and i: "i < next_sid w" and k: "k < length (pending (heap w i))"
    and op: "fst (pending (heap w i) ! k) = Read_payload n"
    and io: "io_result (pending (heap w i) ! k) err data" and ok: "\<not> failed err"
  obtains (silent) s where "complete U i k err data w = Ok () (on_session i (\<lambda>_. s) w)" "same_face (heap w i) s"
  | (delivered) m s p where "onmessage (heap w i) = User m" "valid_content p"
      "same_face ((heap w i)\<lparr>delivered := delivered (heap w i) @ [p]\<rparr>) s" "store_inv {i} (on_session i (\<lambda>_. s) w)"
      "complete U i k err data w = seq (swallow (run_message U m p (on_session i (\<lambda>_. s) w)))
         (\<lambda>w2. Ok () (on_session i read_header w2))"
proof -
  let ?r = "received n k data (heap w i)"
  note pr = payload_received [OF store_invD [OF inv] k op io ok]
  note eq = complete_payload_eq [OF op ok pr(2), of U data]
  show thesis
  proof (cases "onmessage (heap w i)")
    case No_op
    then have "complete U i k err data w = Ok () (on_session i (\<lambda>_. read_header ?r) w)"
      by (simp add: eq on_session_def)
    then show thesis by (rule silent) (simp add: same_face_def)
  next
    case (User m)
    show thesis
    proof (rule delivered [OF User])
      show "valid_content (payload (message_to_read ?r))"
        by (rule received_payload_valid [OF inv k op io ok User])
      show "same_face ((heap w i)\<lparr>delivered := delivered (heap w i) @ [payload (message_to_read ?r)]\<rparr>)
          (handed_over ?r)"
        by (simp add: same_face_def handed_over_def)
      show "store_inv {i} (on_session i (\<lambda>_. handed_over ?r) w)"
        using pr(5) [OF User] by (intro store_inv_upd [OF inv]) (simp_all add: i)
      show "complete U i k err data w =
          seq (swallow (run_message U m (payload (message_to_read ?r)) (on_session i (\<lambda>_. handed_over ?r) w)))
            (\<lambda>w2. Ok () (on_session i read_header w2))"
        using User by (simp add: eq on_session_def)
    qed
  qed (use pr(2) in simp)
qed

text \<open>A failure, or a header: the session is closed or the payload is read next.\<close>

lemma complete_other_outcome:
  fixes w :: "('m, 'c, 'x) world_scheme"
  assumes ca: "closing_allowed i w" and op: "failed err \<or> fst (pending (heap w i) ! k) = Read_header"
  obtains (silent) s where "complete U i k err data w = Ok () (on_session i (\<lambda>_. s) w)" "same_face (heap w i) s"
  | (closed) s e where "socket_open (heap w i)" "same_face (heap w i) s"
      "complete U i k err data w = Ok () (on_session i (\<lambda>_. closed_by e s) (close_effect i w))"
proof -
  let ?op = "fst (pending (heap w i) ! k)"
  let ?t = "transfer ?op data (take_op k (heap w i))"
  let ?w1 = "on_session i (\<lambda>s. transfer ?op data (take_op k s)) w"
  have w1: "?w1 = on_session i (\<lambda>_. ?t) w" by (simp add: on_session_def)
  have face: "same_face (heap w i) ?t" by (rule same_face_transfer)
  obtain v n where p: "parse_header (message_to_read ?t) 0 = (v, n)" by force
  consider e where "complete U i k err data w = close_intern U i e ?w1"
    | "complete U i k err data w = Ok () (on_session i (\<lambda>_. read_payload n ?t) w)"
    using op p by (cases "failed err"; cases v; cases ?op)
      (auto simp: complete_def Let_def on_read_header_def on_read_payload_def on_write_header_def
        on_write_payload_def on_session_def)
  then show thesis
  proof cases
    case (1 e)
    have "close_intern U i e ?w1 = (if socket_open (heap w i)
        then Ok () (on_session i (\<lambda>_. closed_by e ?t) (close_effect i w)) else Ok () (on_session i (\<lambda>_. ?t) w))"
      using close_intern_eq [of i ?w1 e] closing_allowed_local [of "\<lambda>_. ?t" w i] close_effect_local [of "\<lambda>_. ?t" w i]
        ca same_faceD [OF face] by (simp add: w1)
    then show thesis using 1 face silent [of ?t] closed [of ?t e] by (auto split: if_splits)
  next
    case 2
    then show thesis using face by (intro silent [of "read_payload n ?t"]) (simp_all add: same_face_def)
  qed
qed

text \<open>
  Nothing the program sees changes; or an open session is closed; or a message is handed to the
  program's message handler, after which the next read starts.
\<close>

lemma complete_outcome:
  assumes inv: "store_inv {} w" and i: "i < next_sid w" and k: "k < length (pending (heap w i))"
    and io: "io_result (pending (heap w i) ! k) err data" and ca: "closing_allowed i w"
  obtains (silent) s where "complete U i k err data w = Ok () (on_session i (\<lambda>_. s) w)" "same_face (heap w i) s"
  | (closed) s e where "socket_open (heap w i)" "same_face (heap w i) s"
      "complete U i k err data w = Ok () (on_session i (\<lambda>_. closed_by e s) (close_effect i w))"
  | (delivered) m s p where "onmessage (heap w i) = User m" "valid_content p"
      "same_face ((heap w i)\<lparr>delivered := delivered (heap w i) @ [p]\<rparr>) s" "store_inv {i} (on_session i (\<lambda>_. s) w)"
      "complete U i k err data w = seq (swallow (run_message U m p (on_session i (\<lambda>_. s) w)))
         (\<lambda>w2. Ok () (on_session i read_header w2))"
proof -
  let ?op = "fst (pending (heap w i) ! k)"
  consider "failed err \<or> ?op = Read_header" | "\<not> failed err" "\<not> is_read ?op"
    | n where "\<not> failed err" "?op = Read_payload n"
    by (cases ?op) auto
  then show thesis
  proof cases
    case 1
    then show thesis by (rule complete_other_outcome [OF ca]) (erule (1) silent, erule (2) closed)
  next
    case 2
    then show thesis using complete_write_silent [OF inv k 2(2) io 2(1)] silent by blast
  next
    case (3 n)
    show thesis by (rule complete_payload_outcome [OF inv i k 3(2) io 3(1)]) (erule (1) silent, erule (4) delivered)
  qed
qed

end

end
