(* ===== verification/App_Options.thy ===== *)
theory App_Options
  imports Prelude
begin

text \<open>
  The \<open>application\<close> structs of the six example programs: their constructors parse the command
  line with \<open>getopt_long\<close>. The C library function is a parameter: called with the option strings
  and its hidden state (the arguments and \<open>optind\<close>), it returns a code, the argument \<open>optarg\<close>
  and its next state. The loop \<open>while (!done)\<close> is shared, the \<open>switch\<close> is one definition per
  program.
\<close>

section \<open>The option loop\<close>

record long_option =
  opt_name :: string
  opt_has_arg :: bool
  opt_val :: int

type_synonym 'g getopt = "string \<Rightarrow> long_option list \<Rightarrow> 'g \<Rightarrow> int \<times> string \<times> 'g"

record application =
  exit_code :: int
  show_help :: bool
  endpoint :: string
  error_lines :: "string list"      \<comment> \<open>what the constructor prints on \<open>std::cerr\<close>\<close>

definition EXIT_SUCCESS :: int where "EXIT_SUCCESS = 0"
definition EXIT_FAILURE :: int where "EXIT_FAILURE = 1"

abbreviation code_of :: "char \<Rightarrow> int" where
  "code_of c \<equiv> of_char c"

text \<open>One round of the switch returns the application and the new value of \<open>done\<close>.\<close>

partial_function (option) option_loop ::
    "('g \<Rightarrow> int \<times> string \<times> 'g) \<Rightarrow> (int \<Rightarrow> string \<Rightarrow> 'a \<Rightarrow> 'a \<times> bool) \<Rightarrow> 'g \<Rightarrow> 'a \<Rightarrow> 'a option" where
  "option_loop getopt switch g app =
     (case getopt g of (code, optarg, g') \<Rightarrow>
        case switch code optarg app of (app', finished) \<Rightarrow>
          if finished then Some app' else option_loop getopt switch g' app')"

text \<open>The branch \<open>default:\<close>, the same in all programs.\<close>

definition invalid_option :: "('x) application_scheme \<Rightarrow> ('x) application_scheme" where
  "invalid_option app = app\<lparr>error_lines := error_lines app @ [''error: invalid option''],
     show_help := True, exit_code := EXIT_FAILURE\<rparr>"

section \<open>The programs\<close>

definition help_and_endpoint :: "long_option list" where
  "help_and_endpoint =
     [\<lparr>opt_name = ''help'', opt_has_arg = False, opt_val = code_of (CHR ''h'')\<rparr>,
      \<lparr>opt_name = ''endpoint'', opt_has_arg = True, opt_val = code_of (CHR ''e'')\<rparr>]"

definition echo_server_switch :: "int \<Rightarrow> string \<Rightarrow> application \<Rightarrow> application \<times> bool" where
  "echo_server_switch code optarg app =
     (if code = -1 then (app, True)
      else if code = code_of (CHR ''h'') then (app\<lparr>show_help := True\<rparr>, False)
      else if code = code_of (CHR ''e'') then (app\<lparr>endpoint := optarg\<rparr>, False)
      else (invalid_option app, True))"

definition echo_server_application :: "'g getopt \<Rightarrow> 'g \<Rightarrow> application option" where
  "echo_server_application getopt g =
     option_loop (getopt ''e:h'' help_and_endpoint) echo_server_switch g
       \<lparr>exit_code = EXIT_SUCCESS, show_help = False, endpoint = ''/tmp/com_example_echo.sock'', error_lines = []\<rparr>"

definition chat_server_switch :: "int \<Rightarrow> string \<Rightarrow> application \<Rightarrow> application \<times> bool" where
  "chat_server_switch code optarg app =
     (if code = -1 then (app, True)
      else if code = code_of (CHR ''h'') then (app\<lparr>show_help := True\<rparr>, False)
      else if code = code_of (CHR ''e'') then (app\<lparr>endpoint := optarg\<rparr>, False)
      else (invalid_option app, True))"

definition chat_server_application :: "'g getopt \<Rightarrow> 'g \<Rightarrow> application option" where
  "chat_server_application getopt g =
     option_loop (getopt ''e:h'' help_and_endpoint) chat_server_switch g
       \<lparr>exit_code = EXIT_SUCCESS, show_help = False, endpoint = ''/tmp/com_example_chat.sock'', error_lines = []\<rparr>"

definition notification_server_switch :: "int \<Rightarrow> string \<Rightarrow> application \<Rightarrow> application \<times> bool" where
  "notification_server_switch code optarg app =
     (if code = -1 then (app, True)
      else if code = code_of (CHR ''h'') then (app\<lparr>show_help := True\<rparr>, False)
      else if code = code_of (CHR ''e'') then (app\<lparr>endpoint := optarg\<rparr>, False)
      else (invalid_option app, True))"

definition notification_server_application :: "'g getopt \<Rightarrow> 'g \<Rightarrow> application option" where
  "notification_server_application getopt g =
     option_loop (getopt ''e:h'' help_and_endpoint) notification_server_switch g
       \<lparr>exit_code = EXIT_SUCCESS, show_help = False, endpoint = ''/tmp/oizys_example_notify.sock'', error_lines = []\<rparr>"

record echo_client_app = application +
  app_message :: string

definition echo_client_long_opts :: "long_option list" where
  "echo_client_long_opts = help_and_endpoint @
     [\<lparr>opt_name = ''message'', opt_has_arg = True, opt_val = code_of (CHR ''m'')\<rparr>]"

definition echo_client_switch :: "int \<Rightarrow> string \<Rightarrow> echo_client_app \<Rightarrow> echo_client_app \<times> bool" where
  "echo_client_switch code optarg app =
     (if code = -1 then (app, True)
      else if code = code_of (CHR ''h'') then (app\<lparr>show_help := True\<rparr>, False)
      else if code = code_of (CHR ''e'') then (app\<lparr>endpoint := optarg\<rparr>, False)
      else if code = code_of (CHR ''m'') then (app\<lparr>app_message := optarg\<rparr>, False)
      else (invalid_option app, True))"

definition echo_client_application :: "'g getopt \<Rightarrow> 'g \<Rightarrow> echo_client_app option" where
  "echo_client_application getopt g =
     option_loop (getopt ''e:m:h'' echo_client_long_opts) echo_client_switch g
       \<lparr>exit_code = EXIT_SUCCESS, show_help = False, endpoint = ''/tmp/com_example_echo.sock'',
        error_lines = [], app_message = ''Hi''\<rparr>"

record user_app = application +
  app_user :: string

definition chat_client_long_opts :: "long_option list" where
  "chat_client_long_opts = help_and_endpoint @
     [\<lparr>opt_name = ''user'', opt_has_arg = True, opt_val = code_of (CHR ''u'')\<rparr>]"

definition chat_client_switch :: "int \<Rightarrow> string \<Rightarrow> user_app \<Rightarrow> user_app \<times> bool" where
  "chat_client_switch code optarg app =
     (if code = -1 then (app, True)
      else if code = code_of (CHR ''h'') then (app\<lparr>show_help := True\<rparr>, False)
      else if code = code_of (CHR ''e'') then (app\<lparr>endpoint := optarg\<rparr>, False)
      else if code = code_of (CHR ''u'') then (app\<lparr>app_user := optarg\<rparr>, False)
      else (invalid_option app, True))"

definition chat_client_application :: "'g getopt \<Rightarrow> 'g \<Rightarrow> user_app option" where
  "chat_client_application getopt g =
     option_loop (getopt ''e:u:h'' chat_client_long_opts) chat_client_switch g
       \<lparr>exit_code = EXIT_SUCCESS, show_help = False, endpoint = ''/tmp/com_example_chat.sock'',
        error_lines = [], app_user = ''Bob''\<rparr>"

text \<open>The notification client has a user name too, which no option sets.\<close>

definition notification_client_switch :: "int \<Rightarrow> string \<Rightarrow> user_app \<Rightarrow> user_app \<times> bool" where
  "notification_client_switch code optarg app =
     (if code = -1 then (app, True)
      else if code = code_of (CHR ''h'') then (app\<lparr>show_help := True\<rparr>, False)
      else if code = code_of (CHR ''e'') then (app\<lparr>endpoint := optarg\<rparr>, False)
      else (invalid_option app, True))"

definition notification_client_application :: "'g getopt \<Rightarrow> 'g \<Rightarrow> user_app option" where
  "notification_client_application getopt g =
     option_loop (getopt ''e:h'' help_and_endpoint) notification_client_switch g
       \<lparr>exit_code = EXIT_SUCCESS, show_help = False, endpoint = ''/tmp/oizys_example_notify.sock'',
        error_lines = [], app_user = ''Bob''\<rparr>"

section \<open>Termination and results\<close>

text \<open>The results of \<open>getopt_long\<close> called again and again from a state.\<close>

primrec results :: "('g \<Rightarrow> int \<times> string \<times> 'g) \<Rightarrow> nat \<Rightarrow> 'g \<Rightarrow> (int \<times> string) list" where
  "results getopt 0 g = []"
| "results getopt (Suc n) g =
     (case getopt g of (code, optarg, g') \<Rightarrow> (code, optarg) # results getopt n g')"

lemma length_results [simp]: "length (results getopt n g) = n"
  by (induction n arbitrary: g) (auto split: prod.splits)

text \<open>
  What a switch promises: whether the loop ends depends on the code alone. The loop then ends with
  the first final code, and applies the switch to all results up to it.
\<close>

locale option_switch =
  fixes switch :: "int \<Rightarrow> string \<Rightarrow> 'a \<Rightarrow> 'a \<times> bool" and final :: "int \<Rightarrow> bool"
  assumes switch_final: "snd (switch code optarg app) = final code"
begin

lemma option_loop_results:
  assumes "results getopt (Suc (length rs)) g = rs @ [(c, a)]" "\<forall>r \<in> set rs. \<not> final (fst r)" "final c"
  shows "option_loop getopt switch g app
    = Some (fst (switch c a (fold (\<lambda>(c, a) app. fst (switch c a app)) rs app)))"
  using assms(1,2)
proof (induction rs arbitrary: g app)
  case Nil
  obtain c' a' g' where g: "getopt g = (c', a', g')" by (cases "getopt g") auto
  obtain app' where "switch c a app = (app', True)"
    using assms(3) switch_final [of c a app] by (cases "switch c a app") auto
  then show ?case using Nil g by (subst option_loop.simps) simp
next
  case (Cons r rs)
  obtain c' a' g' where g: "getopt g = (c', a', g')" by (cases "getopt g") auto
  then have r: "r = (c', a')" "results getopt (Suc (length rs)) g' = rs @ [(c, a)]"
    using Cons.prems(1) by auto
  obtain app' where sw: "switch c' a' app = (app', False)"
    using Cons.prems(2) r(1) switch_final [of c' a' app] by (cases "switch c' a' app") auto
  show ?case using Cons.IH [OF r(2), of app'] Cons.prems(2)
    by (subst option_loop.simps) (simp add: g sw r(1))
qed

lemma option_loop_ends:
  assumes "\<exists>n. \<exists>r \<in> set (results getopt n g). final (fst r)"
  shows "\<exists>app'. option_loop getopt switch g app = Some app'"
proof -
  obtain n where "\<exists>r \<in> set (results getopt n g). final (fst r)" using assms by blast
  then show ?thesis
  proof (induction n arbitrary: g app)
    case (Suc n)
    obtain c a g' where g: "getopt g = (c, a, g')" by (cases "getopt g") auto
    obtain app' where sw: "switch c a app = (app', final c)"
      using switch_final [of c a app] by (cases "switch c a app") auto
    show ?case
    proof (cases "final c")
      case True
      then show ?thesis by (subst option_loop.simps) (simp add: g sw)
    next
      case False
      then have "\<exists>r \<in> set (results getopt n g'). final (fst r)" using Suc.prems g by simp
      from Suc.IH [OF this, of app'] False show ?thesis
        by (subst option_loop.simps) (simp add: g sw)
    qed
  qed simp
qed

end

text \<open>The codes that end the loop of each program: all but those of its options.\<close>

definition final_eh :: "int \<Rightarrow> bool" where
  "final_eh c \<longleftrightarrow> c \<notin> {code_of (CHR ''h''), code_of (CHR ''e'')}"

definition final_with :: "char \<Rightarrow> int \<Rightarrow> bool" where
  "final_with x c \<longleftrightarrow> c \<notin> {code_of (CHR ''h''), code_of (CHR ''e''), code_of x}"

interpretation echo_server_opts: option_switch echo_server_switch final_eh
  by unfold_locales (simp add: echo_server_switch_def final_eh_def)

interpretation chat_server_opts: option_switch chat_server_switch final_eh
  by unfold_locales (simp add: chat_server_switch_def final_eh_def)

interpretation notification_server_opts: option_switch notification_server_switch final_eh
  by unfold_locales (simp add: notification_server_switch_def final_eh_def)

interpretation notification_client_opts: option_switch notification_client_switch final_eh
  by unfold_locales (simp add: notification_client_switch_def final_eh_def)

interpretation echo_client_opts: option_switch echo_client_switch "final_with (CHR ''m'')"
  by unfold_locales (simp add: echo_client_switch_def final_with_def)

interpretation chat_client_opts: option_switch chat_client_switch "final_with (CHR ''u'')"
  by unfold_locales (simp add: chat_client_switch_def final_with_def)

section \<open>What the options set\<close>

text \<open>The value the last option with a code gives, or the default; and whether a code occurs.\<close>

definition last_arg :: "char \<Rightarrow> string \<Rightarrow> (int \<times> string) list \<Rightarrow> string" where
  "last_arg x d rs = fold (\<lambda>(c, a) v. if c = code_of x then a else v) rs d"

definition given :: "char \<Rightarrow> (int \<times> string) list \<Rightarrow> bool" where
  "given x rs \<longleftrightarrow> code_of x \<in> set (map fst rs)"

lemma last_arg_simps [simp]:
  "last_arg x d [] = d"
  "last_arg x d ((c, a) # rs) = last_arg x (if c = code_of x then a else d) rs"
  by (simp_all add: last_arg_def)

lemma given_simps [simp]:
  "given x [] = False" "given x ((c, a) # rs) = (c = code_of x \<or> given x rs)"
  by (auto simp: given_def)

lemma chat_client_fold:
  assumes "\<forall>r \<in> set rs. \<not> final_with (CHR ''u'') (fst r)"
  shows "fold (\<lambda>(c, a) app. fst (chat_client_switch c a app)) rs app
    = app\<lparr>show_help := show_help app \<or> given (CHR ''h'') rs,
          endpoint := last_arg (CHR ''e'') (endpoint app) rs,
          app_user := last_arg (CHR ''u'') (app_user app) rs\<rparr>"
  using assms
  by (induction rs arbitrary: app) (auto simp: chat_client_switch_def final_with_def)

lemma echo_client_fold:
  assumes "\<forall>r \<in> set rs. \<not> final_with (CHR ''m'') (fst r)"
  shows "fold (\<lambda>(c, a) app. fst (echo_client_switch c a app)) rs app
    = app\<lparr>show_help := show_help app \<or> given (CHR ''h'') rs,
          endpoint := last_arg (CHR ''e'') (endpoint app) rs,
          app_message := last_arg (CHR ''m'') (app_message app) rs\<rparr>"
  using assms
  by (induction rs arbitrary: app) (auto simp: echo_client_switch_def final_with_def)

lemma server_fold:
  assumes "\<forall>r \<in> set rs. \<not> final_eh (fst r)"
  shows "fold (\<lambda>(c, a) app. fst (echo_server_switch c a app)) rs app
    = app\<lparr>show_help := show_help app \<or> given (CHR ''h'') rs,
          endpoint := last_arg (CHR ''e'') (endpoint app) rs\<rparr>"
  using assms
  by (induction rs arbitrary: app) (auto simp: echo_server_switch_def final_eh_def)

lemma notification_client_fold:
  assumes "\<forall>r \<in> set rs. \<not> final_eh (fst r)"
  shows "fold (\<lambda>(c, a) app. fst (notification_client_switch c a app)) rs app
    = app\<lparr>show_help := show_help app \<or> given (CHR ''h'') rs,
          endpoint := last_arg (CHR ''e'') (endpoint app) rs\<rparr>"
  using assms
  by (induction rs arbitrary: app) (auto simp: notification_client_switch_def final_eh_def)

lemma same_switches:
  "chat_server_switch = echo_server_switch" "notification_server_switch = echo_server_switch"
  by (simp_all add: fun_eq_iff chat_server_switch_def notification_server_switch_def echo_server_switch_def)

text \<open>What holds of the application in every round holds of it at the end.\<close>

definition keeps_app :: "('a \<Rightarrow> bool) \<Rightarrow> ('a \<Rightarrow> bool) \<Rightarrow> (int \<Rightarrow> string \<Rightarrow> 'a \<Rightarrow> 'a \<times> bool) \<Rightarrow> bool" where
  "keeps_app I Q switch \<longleftrightarrow>
     (\<forall>c a app. I app \<longrightarrow> (if snd (switch c a app) then Q (fst (switch c a app)) else I (fst (switch c a app))))"

lemma option_loop_keeps:
  fixes getopt :: "'g \<Rightarrow> int \<times> string \<times> 'g" and switch :: "int \<Rightarrow> string \<Rightarrow> 'a \<Rightarrow> 'a \<times> bool"
  shows "option_loop getopt switch g app = Some app' \<Longrightarrow> keeps_app I Q switch \<longrightarrow> I app \<longrightarrow> Q app'"
proof (erule option_loop.raw_induct [rotated, where P = "\<lambda>getopt switch g app app'. keeps_app I Q switch \<longrightarrow> I app \<longrightarrow> Q app'"])
  fix loop and getopt :: "'g \<Rightarrow> int \<times> string \<times> 'g" and switch :: "int \<Rightarrow> string \<Rightarrow> 'a \<Rightarrow> 'a \<times> bool" and g app app'
  assume IH: "\<And>getopt switch g app app'. loop getopt switch g app = Some app' \<Longrightarrow> keeps_app I Q switch \<longrightarrow> I app \<longrightarrow> Q app'"
    and body: "(case getopt g of (code, optarg, g') \<Rightarrow> case switch code optarg app of
      (app', finished) \<Rightarrow> if finished then Some app' else loop getopt switch g' app') = Some app'"
  obtain c a g' where g: "getopt g = (c, a, g')" by (cases "getopt g") auto
  obtain app1 finished where sw: "switch c a app = (app1, finished)" by (cases "switch c a app")
  show "keeps_app I Q switch \<longrightarrow> I app \<longrightarrow> Q app'"
  proof (intro impI)
    assume k: "keeps_app I Q switch" and "I app"
    then have "if finished then Q app1 else I app1" using sw unfolding keeps_app_def by (metis fst_conv snd_conv)
    then show "Q app'" using body g sw IH k by (cases finished) auto
  qed
qed

text \<open>
  An invalid option is reported once, and it alone makes the exit code a failure; help is shown then.
\<close>

definition parsed :: "('x) application_scheme \<Rightarrow> bool" where
  "parsed app \<longleftrightarrow> error_lines app = [] \<and> exit_code app = EXIT_SUCCESS
     \<or> error_lines app = [''error: invalid option''] \<and> exit_code app = EXIT_FAILURE \<and> show_help app"

lemma echo_server_parsed: "echo_server_application getopt g = Some app \<Longrightarrow> parsed app"
  unfolding echo_server_application_def
  by (drule option_loop_keeps [where I = "\<lambda>app. error_lines app = [] \<and> exit_code app = EXIT_SUCCESS" and Q = parsed])
    (simp add: keeps_app_def echo_server_switch_def invalid_option_def parsed_def)

lemma chat_server_parsed: "chat_server_application getopt g = Some app \<Longrightarrow> parsed app"
  unfolding chat_server_application_def
  by (drule option_loop_keeps [where I = "\<lambda>app. error_lines app = [] \<and> exit_code app = EXIT_SUCCESS" and Q = parsed])
    (simp add: keeps_app_def chat_server_switch_def invalid_option_def parsed_def)

lemma notification_server_parsed: "notification_server_application getopt g = Some app \<Longrightarrow> parsed app"
  unfolding notification_server_application_def
  by (drule option_loop_keeps [where I = "\<lambda>app. error_lines app = [] \<and> exit_code app = EXIT_SUCCESS" and Q = parsed])
    (simp add: keeps_app_def notification_server_switch_def invalid_option_def parsed_def)

section \<open>Properties\<close>

text \<open>A \<open>getopt_long\<close> for examples, whose arguments are the results themselves.\<close>

definition listed_getopt :: "(int \<times> string) list getopt" where
  "listed_getopt opts longs args = (case args of [] \<Rightarrow> (-1, '''', []) | (c, a) # rest \<Rightarrow> (c, a, rest))"

text \<open>
  C39: the chat client's options: the last endpoint and the last user given count, or the defaults; help is
  shown if asked for or if an option is invalid; only an invalid option, which ends the parsing, makes
  the exit code a failure.
\<close>

theorem chat_client_options:
  assumes "results (getopt ''e:u:h'' chat_client_long_opts) (Suc (length rs)) g = rs @ [(c, a)]"
    and "\<forall>r \<in> set rs. fst r \<in> {of_char (CHR ''h''), of_char (CHR ''e''), of_char (CHR ''u'')}"
    and "c \<notin> {of_char (CHR ''h''), of_char (CHR ''e''), of_char (CHR ''u'')}"
  shows "\<exists>app. chat_client_application getopt g = Some app
    \<and> endpoint app = last_arg (CHR ''e'') ''/tmp/com_example_chat.sock'' rs
    \<and> app_user app = last_arg (CHR ''u'') ''Bob'' rs
    \<and> show_help app = (given (CHR ''h'') rs \<or> c \<noteq> -1)
    \<and> exit_code app = (if c = -1 then EXIT_SUCCESS else EXIT_FAILURE)"
proof -
  have rs: "\<forall>r \<in> set rs. \<not> final_with (CHR ''u'') (fst r)" and c: "final_with (CHR ''u'') c"
    using assms(2,3) by (auto simp: final_with_def)
  let ?app = "\<lparr>exit_code = EXIT_SUCCESS, show_help = given (CHR ''h'') rs,
      endpoint = last_arg (CHR ''e'') ''/tmp/com_example_chat.sock'' rs, error_lines = [],
      app_user = last_arg (CHR ''u'') ''Bob'' rs\<rparr>"
  have "chat_client_application getopt g = Some (fst (chat_client_switch c a ?app))"
    using chat_client_opts.option_loop_results [OF assms(1) rs c]
    by (simp add: chat_client_application_def chat_client_fold [OF rs])
  then show ?thesis using assms(3) by (auto simp: chat_client_switch_def invalid_option_def)
qed

theorem chat_client_options_witness:
  "\<exists>app. chat_client_application listed_getopt [(101, ''/tmp/s''), (117, ''Al''), (117, ''Jo'')] = Some app
    \<and> endpoint app = ''/tmp/s'' \<and> app_user app = ''Jo'' \<and> \<not> show_help app \<and> exit_code app = 0"
proof -
  let ?rs = "[(101, ''/tmp/s''), (117, ''Al''), (117, ''Jo'')] :: (int \<times> string) list"
  have "results (listed_getopt ''e:u:h'' chat_client_long_opts) (Suc (length ?rs)) ?rs = ?rs @ [(-1, '''')]"
    by (simp add: listed_getopt_def)
  from chat_client_options [where getopt = listed_getopt and rs = ?rs and g = ?rs, OF this] show ?thesis
    by (simp add: EXIT_SUCCESS_def given_def)
qed

text \<open>
  C40: the option loop of each of the six programs ends if \<open>getopt_long\<close>, called again and again, returns
  -1 some time.
\<close>

theorem options_end:
  assumes "\<forall>opts longs. \<exists>n. -1 \<in> fst ` set (results (getopt opts longs) n g)"
  shows "(\<exists>app. echo_server_application getopt g = Some app) \<and> (\<exists>app. chat_server_application getopt g = Some app)
    \<and> (\<exists>app. notification_server_application getopt g = Some app)
    \<and> (\<exists>app. echo_client_application getopt g = Some app) \<and> (\<exists>app. chat_client_application getopt g = Some app)
    \<and> (\<exists>app. notification_client_application getopt g = Some app)"
proof -
  have ends: "\<exists>n. \<exists>r \<in> set (results (getopt opts longs) n g). final (fst r)" if "final (-1)" for opts longs final
    using assms that by (metis imageE)
  have eh: "\<exists>n. \<exists>r \<in> set (results (getopt opts longs) n g). final_eh (fst r)" for opts longs
    by (rule ends) (simp add: final_eh_def)
  have m: "\<exists>n. \<exists>r \<in> set (results (getopt opts longs) n g). final_with (CHR ''m'') (fst r)" for opts longs
    by (rule ends) (simp add: final_with_def)
  have u: "\<exists>n. \<exists>r \<in> set (results (getopt opts longs) n g). final_with (CHR ''u'') (fst r)" for opts longs
    by (rule ends) (simp add: final_with_def)
  show ?thesis
    unfolding echo_server_application_def chat_server_application_def notification_server_application_def
      echo_client_application_def chat_client_application_def notification_client_application_def
    by (intro conjI echo_server_opts.option_loop_ends chat_server_opts.option_loop_ends
        notification_server_opts.option_loop_ends echo_client_opts.option_loop_ends
        chat_client_opts.option_loop_ends notification_client_opts.option_loop_ends eh m u)
qed

theorem options_end_witness:
  "\<exists>app. echo_client_application listed_getopt [(109, ''Ho''), (104, '''')] = Some app"
proof -
  have "results (listed_getopt opts longs) 3 [(109, ''Ho''), (104, '''')] = [(109, ''Ho''), (104, ''''), (-1, '''')]"
    for opts longs by (simp add: listed_getopt_def numeral_3_eq_3)
  then have "\<exists>n. -1 \<in> fst ` set (results (listed_getopt opts longs) n [(109, ''Ho''), (104, '''')])" for opts longs
    by (intro exI [of _ 3]) simp
  then show ?thesis using options_end [of listed_getopt "[(109, ''Ho''), (104, '''')]"] by blast
qed

end
