(* ===== verification/Server_Loop.thy ===== *)
theory Server_Loop
  imports Passive_User App_Options
begin

text \<open>
  What the three example servers share: the world around the sessions (the pending accept, the
  console, the calls that name the endpoint), the events the \<open>io_context\<close> delivers, and the loop
  \<open>while (!shutdown_requested) context.run()\<close>. The contract \<open>server_program\<close> turns an invariant
  that every event keeps into facts on the loop and on all reachable worlds.
\<close>

section \<open>The world of a server\<close>

datatype syscall = Unlink string | Bind string

record ('m, 'c) console_world = "('m, 'c) world" +
  cout :: "bytes list"
  cerr :: "bytes list"

record ('m, 'c) server_world = "('m, 'c) console_world" +
  accepts :: nat                  \<comment> \<open>\<open>async_accept\<close> operations started and not completed\<close>
  syscalls :: "syscall list"

text \<open>
  The operating system is a parameter: \<open>getopt_long\<close>, the error of binding or connecting to an
  endpoint or of opening the console, if any, and the text of a system error.
\<close>

record 'g os =
  os_getopt :: "'g getopt"
  os_bind :: "string \<Rightarrow> int option"
  os_connect :: "string \<Rightarrow> int option"
  os_console :: "int option"
  os_error_text :: "int \<Rightarrow> string"

text \<open>One such system, for examples: the arguments are the results of \<open>getopt_long\<close> themselves.\<close>

definition demo_os :: "(int \<times> string) list os" where
  "demo_os = \<lparr>os_getopt = \<lambda>_ _ args. (case args of [] \<Rightarrow> (-1, '''', []) | (c, a) # rest \<Rightarrow> (c, a, rest)),
     os_bind = \<lambda>_. None, os_connect = \<lambda>_. None, os_console = None, os_error_text = \<lambda>_. ''system error''\<rparr>"

lemma demo_os_none [simp]: "os_bind demo_os path = None" "os_connect demo_os path = None" "os_console demo_os = None"
  by (simp_all add: demo_os_def)

lemma demo_options: "option_loop (os_getopt demo_os opts longs) switch [] app
  = (case switch (-1) '''' app of (app', finished) \<Rightarrow>
       if finished then Some app' else option_loop (os_getopt demo_os opts longs) switch [] app')"
  by (subst option_loop.simps) (simp add: demo_os_def)

fun what :: "'g os \<Rightarrow> exn \<Rightarrow> string" where
  "what os (Runtime_error msg) = msg"
| "what os Bad_function_call = ''bad_function_call''"
| "what os (System_error code) = os_error_text os code"

definition text_bytes :: "string \<Rightarrow> bytes" where
  "text_bytes s = map of_char s"

definition print_bytes :: "bytes \<Rightarrow> ('m, 'c, 'x) console_world_scheme \<Rightarrow> ('m, 'c, 'x) console_world_scheme" where
  "print_bytes l w = w\<lparr>cout := cout w @ [l]\<rparr>"

definition print :: "string \<Rightarrow> ('m, 'c, 'x) console_world_scheme \<Rightarrow> ('m, 'c, 'x) console_world_scheme" where
  "print l w = print_bytes (text_bytes l) w"

definition print_error :: "string \<Rightarrow> ('m, 'c, 'x) console_world_scheme \<Rightarrow> ('m, 'c, 'x) console_world_scheme" where
  "print_error l w = w\<lparr>cerr := cerr w @ [text_bytes l]\<rparr>"

definition unlink :: "string \<Rightarrow> ('m, 'c, 'x) server_world_scheme \<Rightarrow> ('m, 'c, 'x) server_world_scheme" where
  "unlink path w = w\<lparr>syscalls := syscalls w @ [Unlink path]\<rparr>"

definition open_acceptor ::
    "'g os \<Rightarrow> string \<Rightarrow> ('m, 'c, 'x) server_world_scheme \<Rightarrow> (unit, ('m, 'c, 'x) server_world_scheme) res" where
  "open_acceptor os path w =
     (let w1 = w\<lparr>syscalls := syscalls w @ [Bind path]\<rparr> in
      case os_bind os path of Some code \<Rightarrow> Exc (System_error code) w1 | None \<Rightarrow> Ok () w1)"

definition async_accept :: "('m, 'c, 'x) server_world_scheme \<Rightarrow> ('m, 'c, 'x) server_world_scheme" where
  "async_accept w = w\<lparr>accepts := Suc (accepts w)\<rparr>"

definition accept_done :: "('m, 'c, 'x) server_world_scheme \<Rightarrow> ('m, 'c, 'x) server_world_scheme" where
  "accept_done w = w\<lparr>accepts := accepts w - 1\<rparr>"

lemmas server_defs = print_bytes_def print_def print_error_def unlink_def async_accept_def accept_done_def

lemma console_world_heap [simp]:
  "heap (print_bytes b w) = heap w" "next_sid (print_bytes b w) = next_sid w"
  "heap (print l w) = heap w" "next_sid (print l w) = next_sid w"
  "heap (print_error l w) = heap w" "next_sid (print_error l w) = next_sid w"
  by (simp_all add: server_defs)

lemma server_world_heap [simp]:
  "heap (unlink p w) = heap w" "next_sid (unlink p w) = next_sid w"
  "heap (async_accept w) = heap w" "next_sid (async_accept w) = next_sid w"
  "heap (accept_done w) = heap w" "next_sid (accept_done w) = next_sid w"
  by (simp_all add: server_defs)

lemma server_world_accepts [simp]:
  "accepts (print_bytes b w) = accepts w" "accepts (print l w) = accepts w"
  "accepts (print_error l w) = accepts w" "accepts (unlink p w) = accepts w"
  "accepts (on_session i f w) = accepts w"
  "accepts (async_accept w) = Suc (accepts w)" "accepts (accept_done w) = accepts w - 1"
  by (simp_all add: server_defs on_session_def)

lemma server_world_syscalls [simp]:
  "syscalls (print_bytes b w) = syscalls w" "syscalls (print l w) = syscalls w"
  "syscalls (print_error l w) = syscalls w" "syscalls (unlink p w) = syscalls w @ [Unlink p]"
  "syscalls (on_session i f w) = syscalls w"
  "syscalls (async_accept w) = syscalls w" "syscalls (accept_done w) = syscalls w"
  by (simp_all add: server_defs on_session_def)

lemma print_on_session:
  "print l (on_session i f w) = on_session i f (print l w)"
  "print_bytes b (on_session i f w) = on_session i f (print_bytes b w)"
  "print_error l (on_session i f w) = on_session i f (print_error l w)"
  by (simp_all add: server_defs on_session_def)

lemma store_inv_heap: "heap w' = heap w \<Longrightarrow> next_sid w' = next_sid w \<Longrightarrow> store_inv B w' = store_inv B w"
  for w :: "('m, 'c, 'x) world_scheme" and w' :: "('m, 'c, 'y) world_scheme"
  by (simp add: store_inv_def)

lemma keeps_heap: "store_inv B w \<Longrightarrow> heap w' = heap w \<Longrightarrow> next_sid w' = next_sid w \<Longrightarrow> keeps B w w'"
  by (simp add: keeps_def grows_def store_inv_def)

text \<open>The world before the server is constructed.\<close>

definition fresh :: "('m, 'c, 'x) server_world_scheme \<Rightarrow> bool" where
  "fresh w \<longleftrightarrow> no_sessions w \<and> accepts w = 0"

definition quiet_world :: "('m, 'c) server_world" where
  "quiet_world = \<lparr>heap = (\<lambda>_. asio_session False), next_sid = 0, cout = [], cerr = [], accepts = 0, syscalls = []\<rparr>"

lemma print_errors_heap [simp]:
  "heap (fold print_error ls w) = heap w" "next_sid (fold print_error ls w) = next_sid w"
  "cout (fold print_error ls w) = cout w"
  by (induction ls arbitrary: w) (simp_all add: print_error_def)

lemma print_errors_simps [simp]:
  "syscalls (fold print_error ls w) = syscalls w" "accepts (fold print_error ls w) = accepts w"
  by (induction ls arbitrary: w) simp_all

text \<open>What a program leaves that only shows its usage.\<close>

definition usage_shown ::
    "string list \<Rightarrow> string list \<Rightarrow> ('m, 'c, 'x) console_world_scheme \<Rightarrow> ('m, 'c, 'x) console_world_scheme" where
  "usage_shown usage errors w = w\<lparr>cout := cout w @ map text_bytes usage, cerr := cerr w @ map text_bytes errors\<rparr>"

lemma fold_print: "fold print ls w = w\<lparr>cout := cout w @ map text_bytes ls\<rparr>"
  by (induction ls arbitrary: w) (simp_all add: print_def print_bytes_def)

lemma fold_print_error: "fold print_error ls w = w\<lparr>cerr := cerr w @ map text_bytes ls\<rparr>"
  by (induction ls arbitrary: w) (simp_all add: print_error_def)

lemma usage_shown_eq: "fold print usage (fold print_error errors w) = usage_shown usage errors w"
  by (simp add: fold_print fold_print_error usage_shown_def)

lemma fresh_print_errors [simp]: "fresh (fold print_error ls w) = fresh w"
  by (simp add: fresh_def no_sessions_def)

lemma fresh_quiet_world: "fresh quiet_world"
  by (simp add: fresh_def no_sessions_def quiet_world_def)

lemma store_inv_fresh: "fresh w \<Longrightarrow> store_inv {} w \<and> next_sid w = 0 \<and> accepts w = 0"
  by (simp add: fresh_def store_inv_no_sessions no_sessions_def)

section \<open>A successful send\<close>

text \<open>What a successful \<open>send\<close> does to the session.\<close>

definition sent :: "bytes \<Rightarrow> ('m, 'c) session \<Rightarrow> ('m, 'c) session" where
  "sent message s =
     (let s1 = s\<lparr>write_queue := write_queue s @ [message_of message], accepted := accepted s @ [message]\<rparr>
      in if write_queue s = [] then write_header s1 else s1)"

lemma send_valid: "valid_content m \<Longrightarrow> send m s = Ok (length (write_queue s) + 1) (sent m s)"
  by (simp add: send_cases sent_def Let_def)

lemma sent_simps [simp]:
  "socket_open (sent m s) = socket_open s" "onmessage (sent m s) = onmessage s"
  "onclose (sent m s) = onclose s" "accepted (sent m s) = accepted s @ [m]"
  "delivered (sent m s) = delivered s" "wire_out (sent m s) = wire_out s"
  "write_queue (sent m s) = write_queue s @ [message_of m]"
  by (simp_all add: sent_def Let_def)

section \<open>A new connection\<close>

text \<open>The session of an accepted connection once both handlers are set.\<close>

definition connected :: "'m \<Rightarrow> 'c \<Rightarrow> ('m, 'c) session" where
  "connected m c = read_header ((asio_session True)\<lparr>onclose := User c, onmessage := User m\<rparr>)"

definition with_new :: "('m, 'c) session \<Rightarrow> ('m, 'c, 'x) world_scheme \<Rightarrow> ('m, 'c, 'x) world_scheme" where
  "with_new s w = w\<lparr>heap := (heap w)(next_sid w := s), next_sid := Suc (next_sid w)\<rparr>"

lemma with_new_simps [simp]:
  "heap (with_new s w) = (heap w)(next_sid w := s)" "next_sid (with_new s w) = Suc (next_sid w)"
  by (simp_all add: with_new_def)

lemma with_new_server [simp]:
  "accepts (with_new s w) = accepts w" "syscalls (with_new s w) = syscalls w" "cout (with_new s w) = cout w"
  by (simp_all add: with_new_def)

lemma connected_simps [simp]:
  "socket_open (connected m c)" "onmessage (connected m c) = User m" "onclose (connected m c) = User c"
  "accepted (connected m c) = []" "delivered (connected m c) = []" "write_queue (connected m c) = []"
  by (simp_all add: connected_def asio_session_def)

lemma session_inv_connected: "session_inv False (connected m c)"
proof -
  let ?s = "(asio_session True)\<lparr>onclose := User c\<rparr> :: ('a, 'b) session"
  have "session_inv False ((asio_session True)\<lparr>onclose := User c, notified := []\<rparr> :: ('a, 'b) session)"
    by (rule set_onclose_upd [OF session_inv_new]) (simp add: closer_inv_def asio_session_def)
  then have "session_inv False ?s" by (simp add: asio_session_def)
  from set_onmessage_session_inv [OF this, of "User m"] show ?thesis
    by (simp add: set_onmessage_def connected_def asio_session_def)
qed

lemma store_inv_with_new: "store_inv {} w \<Longrightarrow> store_inv {} (with_new (connected m c) w)"
  by (simp add: store_inv_def session_inv_connected)

section \<open>Events\<close>

datatype server_event =
    Signal                                     \<comment> \<open>\<open>SIGINT\<close> or \<open>SIGTERM\<close>\<close>
  | Accepted error_code
  | Io sid nat error_code bytes

text \<open>Which events the context can deliver in a world.\<close>

definition io_occurs :: "sid \<Rightarrow> nat \<Rightarrow> error_code \<Rightarrow> bytes \<Rightarrow> ('m, 'c, 'x) world_scheme \<Rightarrow> bool" where
  "io_occurs i k err data w \<longleftrightarrow>
     i < next_sid w \<and> k < length (pending (heap w i)) \<and> io_result (pending (heap w i) ! k) err data"

fun occurs :: "server_event \<Rightarrow> ('m, 'c, 'x) server_world_scheme \<Rightarrow> bool" where
  "occurs Signal w = True"
| "occurs (Accepted err) w = (0 < accepts w)"
| "occurs (Io i k err data) w = io_occurs i k err data w"

text \<open>A complete message has arrived at a session that still has a user's message handler.\<close>

lemma message_arrives:
  assumes inv: "store_inv {} w" and io: "io_occurs i k err data w" and ok: "\<not> failed err"
    and op: "fst (pending (heap w i) ! k) = Read_payload n" and m: "onmessage (heap w i) = User m"
  shows "valid_content data"
    and "\<exists>s. same_face ((heap w i)\<lparr>delivered := delivered (heap w i) @ [data]\<rparr>) s
      \<and> write_queue s = write_queue (heap w i)
      \<and> complete U i k err data w = seq (swallow (run_message U m data (on_session i (\<lambda>_. s) w)))
          (\<lambda>w2. Ok () (on_session i read_header w2))"
proof -
  let ?r = "received n k data (heap w i)"
  have k: "k < length (pending (heap w i))" and res: "io_result (pending (heap w i) ! k) err data"
    using io by (simp_all add: io_occurs_def)
  have "reader_inv (i \<in> {}) (heap w i)" by (rule session_inv_D(2) [OF store_invD [OF inv]])
  then have d: "payload (message_to_read ?r) = data"
    using payload_read_done(2) [OF _ k op res ok] by (simp add: received_def Let_def)
  show "valid_content data"
    using received_payload_valid [OF inv k op res ok m] d by simp
  have "complete U i k err data w = seq (swallow (run_message U m data (on_session i (\<lambda>_. handed_over ?r) w)))
      (\<lambda>w2. Ok () (on_session i read_header w2))"
    using complete_payload_eq [OF op ok, of U data] m d by (simp add: on_session_def)
  moreover have "same_face ((heap w i)\<lparr>delivered := delivered (heap w i) @ [data]\<rparr>) (handed_over ?r)"
    using d by (simp add: same_face_def handed_over_def)
  moreover have "write_queue (handed_over ?r) = write_queue (heap w i)"
    by (simp add: handed_over_def received_def Let_def take_op_def)
  ultimately show "\<exists>s. same_face ((heap w i)\<lparr>delivered := delivered (heap w i) @ [data]\<rparr>) s
      \<and> write_queue s = write_queue (heap w i)
      \<and> complete U i k err data w = seq (swallow (run_message U m data (on_session i (\<lambda>_. s) w)))
          (\<lambda>w2. Ok () (on_session i read_header w2))" by blast
qed

section \<open>The loop\<close>

text \<open>
  \<open>while (!shutdown_requested) context.run()\<close> on the events the environment delivers: true when a
  signal has ended it, false when it still waits for the next event.
\<close>

fun serve :: "('e \<Rightarrow> bool) \<Rightarrow> ('e \<Rightarrow> 'w \<Rightarrow> (unit, 'w) res) \<Rightarrow> 'e list \<Rightarrow> 'w \<Rightarrow> (bool, 'w) res" where
  "serve stop handle [] w = Ok False w"
| "serve stop handle (e # es) w = (if stop e then Ok True w else seq (handle e w) (serve stop handle es))"

fun feasible ::
    "('e \<Rightarrow> bool) \<Rightarrow> ('e \<Rightarrow> 'w \<Rightarrow> bool) \<Rightarrow> ('e \<Rightarrow> 'w \<Rightarrow> (unit, 'w) res) \<Rightarrow> 'e list \<Rightarrow> 'w \<Rightarrow> bool" where
  "feasible stop guard handle [] w = True"
| "feasible stop guard handle (e # es) w =
     (stop e \<or> guard e w \<and> (case handle e w of Ok _ w' \<Rightarrow> feasible stop guard handle es w' | _ \<Rightarrow> True))"

inductive served ::
    "('e \<Rightarrow> 'w \<Rightarrow> bool) \<Rightarrow> ('e \<Rightarrow> 'w \<Rightarrow> (unit, 'w) res) \<Rightarrow> 'w \<Rightarrow> 'w \<Rightarrow> bool"
  for guard handle w0 where
  start: "served guard handle w0 w0"
| event: "served guard handle w0 w \<Longrightarrow> guard e w \<Longrightarrow> state_of (handle e w) = Some w' \<Longrightarrow> served guard handle w0 w'"

fun handle_all :: "('e \<Rightarrow> 'w \<Rightarrow> (unit, 'w) res) \<Rightarrow> 'e list \<Rightarrow> 'w \<Rightarrow> (unit, 'w) res" where
  "handle_all handle [] w = Ok () w"
| "handle_all handle (e # es) w = seq (handle e w) (handle_all handle es)"

lemma served_trans: "served guard handle w1 w2 \<Longrightarrow> served guard handle w0 w1 \<Longrightarrow> served guard handle w0 w2"
  by (induction rule: served.induct) (auto intro: served.event)

lemma served_one: "guard e w \<Longrightarrow> handle e w = Ok () w' \<Longrightarrow> served guard handle w w'"
  by (rule served.event [where e = e]) (auto intro: served.start)

lemma handle_all_served:
  "feasible (\<lambda>_. False) guard handle es w \<Longrightarrow> handle_all handle es w = Ok () w' \<Longrightarrow> served guard handle w w'"
proof (induction es arbitrary: w)
  case (Cons e es)
  then obtain w1 where w1: "handle e w = Ok () w1" "handle_all handle es w1 = Ok () w'" "guard e w"
    "feasible (\<lambda>_. False) guard handle es w1" by (cases "handle e w") auto
  have "served guard handle w w1" by (rule served_one [where handle = handle and guard = guard and e = e, OF w1(3,1)])
  then show ?case using Cons.IH [OF w1(4,2)] by (blast intro: served_trans)
qed (auto intro: served.start)

locale server_program =
  fixes guard :: "'e \<Rightarrow> 'w \<Rightarrow> bool" and handle :: "'e \<Rightarrow> 'w \<Rightarrow> (unit, 'w) res" and inv :: "'w \<Rightarrow> bool"
  assumes event_ok: "inv w \<Longrightarrow> guard e w \<Longrightarrow> \<exists>w'. handle e w = Ok () w' \<and> inv w'"
begin

lemma served_inv: "served guard handle w0 w \<Longrightarrow> inv w0 \<Longrightarrow> inv w"
proof (induction rule: served.induct)
  case (event w e w')
  then show ?case using event_ok [of w e] by auto
qed

lemma served_event_ok: "inv w0 \<Longrightarrow> served guard handle w0 w \<Longrightarrow> guard e w \<Longrightarrow> \<exists>w'. handle e w = Ok () w'"
  using event_ok served_inv by blast

lemma serve_ok:
  "inv w \<Longrightarrow> feasible stop guard handle es w \<Longrightarrow>
   \<exists>w'. serve stop handle es w = Ok (\<exists>e \<in> set es. stop e) w' \<and> inv w' \<and> served guard handle w w'"
proof (induction es arbitrary: w)
  case (Cons e es)
  show ?case
  proof (cases "stop e")
    case True
    then show ?thesis using Cons.prems by (auto intro: served.start)
  next
    case False
    then have g: "guard e w" using Cons.prems(2) by simp
    obtain w1 where w1: "handle e w = Ok () w1" "inv w1" using event_ok [OF Cons.prems(1) g] by blast
    have "served guard handle w w1" by (rule served_one [where handle = handle and guard = guard and e = e, OF g w1(1)])
    then show ?thesis using Cons.IH [OF w1(2)] Cons.prems(2) False w1(1)
      by (auto intro: served_trans)
  qed
qed (auto intro: served.start)

end

end
