(* ===== verification/Echo_Server.thy ===== *)
theory Echo_Server
  imports Server_Loop
begin

text \<open>
  \<open>src/example/echo/echo_server.cpp\<close>: every accepted connection becomes a session whose message
  handler sends each message back. The handlers are closures; the message handler has captured the
  session it belongs to.
\<close>

section \<open>The server\<close>

datatype echo_message = Echo_message sid
datatype echo_close = Echo_closed

type_synonym echo_world = "(echo_message, echo_close) server_world"

fun echo_on_message :: "echo_message \<Rightarrow> bytes \<Rightarrow> echo_world \<Rightarrow> (unit, echo_world) res" where
  "echo_on_message (Echo_message session) message w =
     ignore (call_on session (send message) (print_bytes message w))"

fun echo_on_close :: "echo_close \<Rightarrow> error_code \<Rightarrow> echo_world \<Rightarrow> (unit, echo_world) res" where
  "echo_on_close Echo_closed err w = Ok () (print ''info: connection closed'' w)"

definition echo_user :: "(echo_message, echo_close, echo_world) user_code" where
  "echo_user = \<lparr>run_message = echo_on_message, run_close = echo_on_close\<rparr>"

definition echo_do_accept :: "echo_world \<Rightarrow> echo_world" where
  "echo_do_accept w = async_accept w"

definition echo_connected :: "echo_world \<Rightarrow> (unit, echo_world) res" where
  "echo_connected w =
     bind_res (create_session True (print ''info: new connection'' w)) (\<lambda>session w1.
       seq (set_onclose echo_user session (User Echo_closed) w1) (\<lambda>w2.
         call_on session (set_onmessage (User (Echo_message session))) w2))"

definition echo_on_accept :: "error_code \<Rightarrow> echo_world \<Rightarrow> (unit, echo_world) res" where
  "echo_on_accept err w =
     seq (if \<not> failed err then echo_connected (accept_done w) else Ok () (accept_done w))
         (\<lambda>w1. Ok () (echo_do_accept w1))"

definition echo_server :: "'g os \<Rightarrow> string \<Rightarrow> echo_world \<Rightarrow> (unit, echo_world) res" where
  "echo_server os path w = seq (open_acceptor os path w) (\<lambda>w1. Ok () (echo_do_accept w1))"

fun echo_handle :: "server_event \<Rightarrow> echo_world \<Rightarrow> (unit, echo_world) res" where
  "echo_handle Signal w = Ok () w"
| "echo_handle (Accepted err) w = echo_on_accept err w"
| "echo_handle (Io i k err data) w = complete echo_user i k err data w"

section \<open>The program\<close>

definition echo_server_usage :: "string list" where
  "echo_server_usage =
    [''echo_server, (C) 2024 Falk Werner'',
     ''Sample echo server'',
     '''',
     ''Usage:'',
     ''    echo-server -e <endpoint>'',
     '''',
     ''Options:'',
     ''    -e, --endpoint <endpoint> - Endpoint to listen (default: /tmp/com_example_echo.sock)'',
     ''    -h, --help                - Prints this message'',
     '''',
     ''Example:'',
     ''    echo-server -e /tmp/echo.sock'']"

text \<open>The body of the \<open>try\<close> block; true when a signal has ended it.\<close>

definition echo_server_run ::
    "'g os \<Rightarrow> string \<Rightarrow> server_event list \<Rightarrow> echo_world \<Rightarrow> (bool, echo_world) res" where
  "echo_server_run os path events w =
     seq (echo_server os path (unlink path w)) (\<lambda>w1.
       bind_res (serve (\<lambda>e. e = Signal) echo_handle events (print (''info: listening on '' @ path) w1))
         (\<lambda>finished w2. Ok finished (if finished then print ''info: shutdown'' w2 else w2)))"

text \<open>
  The result is None when the option loop does not end; otherwise the exit code, or None while
  the server still waits for events.
\<close>

definition echo_server_main ::
    "'g os \<Rightarrow> 'g \<Rightarrow> server_event list \<Rightarrow> echo_world \<Rightarrow> (int option, echo_world) res option" where
  "echo_server_main os args events w =
     (case echo_server_application (os_getopt os) args of
        None \<Rightarrow> None
      | Some app \<Rightarrow> Some (
          let w0 = fold print_error (error_lines app) w in
          if \<not> show_help app then
            (case echo_server_run os (endpoint app) events w0 of
               Ok finished w1 \<Rightarrow>
                 if finished then Ok (Some (exit_code app)) (unlink (endpoint app) w1) else Ok None w1
             | Exc e w1 \<Rightarrow>
                 Ok (Some (exit_code app)) (unlink (endpoint app) (print_error (''error: '' @ what os e) w1))
             | Undef \<Rightarrow> Undef)
          else Ok (Some (exit_code app)) (fold print echo_server_usage w0)))"

section \<open>The library's contract\<close>

interpretation echo: passive_user echo_user "\<lambda>_ _. True" "\<lambda>_. print ''info: connection closed''"
proof
  fix c err and w :: echo_world
  show "run_close echo_user c err w = (if True then Ok () (print ''info: connection closed'' w) else Undef)"
    by (cases c) (simp add: echo_user_def)
next
  fix B m message and w :: echo_world
  assume inv: "store_inv B w"
  obtain i where m: "m = Echo_message i" by (cases m)
  have k: "keeps B w (print_bytes message w)" by (rule keeps_heap [OF inv]) simp_all
  then have "res_all (keeps B (print_bytes message w)) (call_on i (send message) (print_bytes message w))"
    using res_keeps_call_on send_session_inv by (metis keeps_inv store_invD)
  then have "res_all (keeps B w) (call_on i (send message) (print_bytes message w))"
    using k by (intro res_keeps_trans [of w "print_bytes message w"]) (simp_all add: keeps_def)
  then show "res_all (keeps B w) (run_message echo_user m message w)"
    by (simp add: echo_user_def m)
qed (simp_all add: print_on_session)

section \<open>The invariant\<close>

text \<open>
  Every session has its two handlers until it is closed, and has sent back exactly what it was
  given; one accept is under way.
\<close>

definition echo_session :: "sid \<Rightarrow> (echo_message, echo_close) session \<Rightarrow> bool" where
  "echo_session i s \<longleftrightarrow> accepted s = delivered s
     \<and> (if socket_open s then onmessage s = User (Echo_message i) \<and> onclose s = User Echo_closed
        else onmessage s = No_op \<and> onclose s = No_op)"

definition echo_inv :: "echo_world \<Rightarrow> bool" where
  "echo_inv w \<longleftrightarrow> store_inv {} w \<and> accepts w = 1 \<and> (\<forall>i < next_sid w. echo_session i (heap w i))"

lemma echo_session_face: "echo_session i s \<Longrightarrow> same_face s t \<Longrightarrow> echo_session i t"
  by (simp add: echo_session_def same_face_def)

lemma echo_session_closed: "echo_session i s \<Longrightarrow> echo_session i (closed_by e s)"
  by (auto simp: echo_session_def split: if_splits)

lemma echo_closing_allowed [simp]: "echo.closing_allowed i w"
  by (simp add: echo.closing_allowed_def)

lemma accepts_close_effect [simp]: "accepts (echo.close_effect i w) = accepts w"
  by (simp add: echo.close_effect_def split: func.split)

lemma echo_connected_eq:
  "echo_connected w =
     Ok () (with_new (connected (Echo_message (next_sid w)) Echo_closed) (print ''info: new connection'' w))"
  by (simp add: echo_connected_def create_session_def set_onclose_def Let_def call_on_def set_onmessage_def
      on_session_def server_defs with_new_def connected_def asio_session_def)

lemma echo_session_connected: "echo_session i (connected (Echo_message i) Echo_closed)"
  by (simp add: echo_session_def)

text \<open>The message handler: the message goes back into the queue of its own session.\<close>

lemma echo_message_run:
  assumes "valid_content p"
  shows "\<exists>t. run_message echo_user (Echo_message i) p w = Ok () (on_session i (\<lambda>_. t) (print_bytes p w))
    \<and> same_face ((heap w i)\<lparr>accepted := accepted (heap w i) @ [p]\<rparr>) t"
  using assms by (auto simp: echo_user_def call_on_def send_cases Let_def ignore_def same_face_def)

lemma echo_inv_upd:
  assumes "echo_inv w" "store_inv {} w'" "accepts w' = 1" "next_sid w' = next_sid w"
    and "\<And>j. j \<noteq> i \<Longrightarrow> heap w' j = heap w j" "echo_session i (heap w' i)"
  shows "echo_inv w'"
  unfolding echo_inv_def
proof (intro conjI allI impI)
  show "echo_session j (heap w' j)" if "j < next_sid w'" for j
    using assms that by (cases "j = i") (simp_all add: echo_inv_def)
qed (use assms in simp_all)

lemma echo_accept_ok:
  assumes "echo_inv w"
  shows "\<exists>w'. echo_on_accept err w = Ok () w' \<and> echo_inv w'"
proof (cases "failed err")
  case True
  then show ?thesis using assms
    by (auto simp: echo_on_accept_def echo_do_accept_def echo_inv_def store_inv_def)
next
  case False
  let ?w = "print ''info: new connection'' (accept_done w)"
  have "store_inv {} ?w" using assms by (simp add: echo_inv_def store_inv_def)
  then have "store_inv {} (with_new (connected (Echo_message (next_sid w)) Echo_closed) ?w)"
    by (rule store_inv_with_new)
  then show ?thesis using assms False echo_session_connected
    by (auto simp: echo_on_accept_def echo_do_accept_def echo_connected_eq echo_inv_def store_inv_def less_Suc_eq)
qed

lemma echo_io_ok:
  assumes inv: "echo_inv w" and io: "io_occurs i k err data w"
  shows "\<exists>w'. complete echo_user i k err data w = Ok () w' \<and> echo_inv w'"
proof -
  have w: "store_inv {} w" "echo_session i (heap w i)" "accepts w = 1"
    using inv io by (simp_all add: echo_inv_def io_occurs_def)
  have keep: "store_inv {} w'" if "complete echo_user i k err data w = Ok () w'" for w'
    using echo.complete_keeps [OF w(1)] io that by (fastforce simp: io_occurs_def keeps_def)
  have comp: "i < next_sid w" "k < length (pending (heap w i))" "io_result (pending (heap w i) ! k) err data"
    using io by (simp_all add: io_occurs_def)
  show ?thesis
  proof (rule echo.complete_outcome [OF w(1) comp echo_closing_allowed])
    fix s assume s: "complete echo_user i k err data w = Ok () (on_session i (\<lambda>_. s) w)" "same_face (heap w i) s"
    have "echo_inv (on_session i (\<lambda>_. s) w)"
      by (rule echo_inv_upd [OF inv keep [OF s(1)], of i])
        (use w s echo_session_face in \<open>auto simp: echo_inv_def\<close>)
    then show ?thesis using s(1) by blast
  next
    fix s e assume s: "same_face (heap w i) s"
      "complete echo_user i k err data w = Ok () (on_session i (\<lambda>_. closed_by e s) (echo.close_effect i w))"
    have "echo_inv (on_session i (\<lambda>_. closed_by e s) (echo.close_effect i w))"
      by (rule echo_inv_upd [OF inv keep [OF s(2)], of i])
        (use w s echo_session_face echo_session_closed in \<open>auto simp: echo_inv_def\<close>)
    then show ?thesis using s(2) by blast
  next
    fix m s p
    assume s: "onmessage (heap w i) = User m" "valid_content p"
      "same_face ((heap w i)\<lparr>delivered := delivered (heap w i) @ [p]\<rparr>) s"
      and eq: "complete echo_user i k err data w = seq (swallow (run_message echo_user m p (on_session i (\<lambda>_. s) w)))
         (\<lambda>w2. Ok () (on_session i read_header w2))"
    have m: "m = Echo_message i" using s(1) w(2) by (auto simp: echo_session_def split: if_splits)
    obtain t where t: "run_message echo_user m p (on_session i (\<lambda>_. s) w)
        = Ok () (on_session i (\<lambda>_. t) (print_bytes p (on_session i (\<lambda>_. s) w)))"
      "same_face (s\<lparr>accepted := accepted s @ [p]\<rparr>) t"
      using echo_message_run [OF s(2), of i "on_session i (\<lambda>_. s) w"] m by auto
    let ?w' = "on_session i read_header (on_session i (\<lambda>_. t) (print_bytes p (on_session i (\<lambda>_. s) w)))"
    have c: "complete echo_user i k err data w = Ok () ?w'" by (simp add: eq t(1))
    have "echo_session i (read_header t)"
      using w(2) s(3) t(2) by (simp add: echo_session_def same_face_def split: if_splits)
    then have "echo_inv ?w'"
      by (intro echo_inv_upd [OF inv keep [OF c], of i]) (use w in \<open>auto\<close>)
    then show ?thesis using c by blast
  qed
qed

interpretation echo_program: server_program occurs echo_handle echo_inv
proof
  show "\<exists>w'. echo_handle e w = Ok () w' \<and> echo_inv w'" if "echo_inv w" "occurs e w" for w e
    using that by (cases e) (auto simp: echo_accept_ok echo_io_ok)
qed

section \<open>Properties\<close>

text \<open>The world a started server waits in.\<close>

definition echo_listening :: "string \<Rightarrow> echo_world \<Rightarrow> echo_world" where
  "echo_listening path w = print (''info: listening on '' @ path)
     (echo_do_accept (w\<lparr>syscalls := syscalls w @ [Unlink path, Bind path]\<rparr>))"

lemma echo_listening_inv: "fresh w \<Longrightarrow> echo_inv (echo_listening path w)"
  using store_inv_fresh [of w]
  by (simp add: echo_listening_def echo_do_accept_def echo_inv_def store_inv_def)

lemma served_echo_inv: "fresh w0 \<Longrightarrow> served occurs echo_handle (echo_listening path w0) w \<Longrightarrow> echo_inv w"
  by (blast intro: echo_program.served_inv echo_listening_inv)

text \<open>A run: a client connects, sends a message and gets the header of the answer.\<close>

definition echo_demo_events :: "server_event list" where
  "echo_demo_events = [Accepted no_error, Io 0 0 no_error [0, 0, 0, 2], Io 0 0 no_error [72, 105],
     Io 0 0 no_error [0, 0, 0, 2]]"

definition echo_demo :: echo_world where
  "echo_demo = the (state_of (handle_all echo_handle echo_demo_events (echo_listening ''e'' quiet_world)))"

lemmas echo_demo_defs = echo_demo_def echo_demo_events_def echo_listening_def quiet_world_def
  echo_do_accept_def server_defs echo_on_accept_def echo_connected_def echo_user_def run_defs io_occurs_def

lemma echo_demo_run:
  "handle_all echo_handle echo_demo_events (echo_listening ''e'' quiet_world) = Ok () echo_demo"
  "feasible (\<lambda>_. False) occurs echo_handle echo_demo_events (echo_listening ''e'' quiet_world)"
  by (simp_all add: echo_demo_defs)

lemma echo_demo_fields:
  "next_sid echo_demo = 1" "wire_in (heap echo_demo 0) = [0, 0, 0, 2, 72, 105]"
  "wire_out (heap echo_demo 0) = [0, 0, 0, 2]" "socket_open (heap echo_demo 0)"
  "frames_in (heap echo_demo 0) = [[72, 105]]" "accepts echo_demo = 1"
  by (simp_all add: echo_demo_defs)

lemma served_echo_demo: "served occurs echo_handle (echo_listening ''e'' quiet_world) echo_demo"
  by (rule handle_all_served [OF echo_demo_run(2,1)])

text \<open>
  C15: on every connection the bytes the echo server has written are a prefix of the bytes it has
  read, whatever the clients send and in whatever order operations complete; the messages it has
  queued are those its handler was given, on an open connection all complete messages received.
\<close>

theorem echo_server_echoes:
  assumes "fresh w0" and "served occurs echo_handle (echo_listening path w0) w" and "i < next_sid w"
  shows "prefix (wire_out (heap w i)) (wire_in (heap w i)) \<and> accepted (heap w i) = delivered (heap w i)
    \<and> (socket_open (heap w i) \<longrightarrow> accepted (heap w i) = frames_in (heap w i))"
proof -
  let ?s = "heap w i"
  have inv: "session_inv False ?s" and e: "echo_session i ?s"
    using served_echo_inv [OF assms(1,2)] assms(3) store_invD [of "{}" w i] by (auto simp: echo_inv_def)
  note parts = session_inv_D [OF inv]
  have "prefix (wire_out ?s) (stream (delivered ?s))"
    using writer_inv_prefix [OF parts(1)] e by (simp add: echo_session_def)
  moreover have "prefix (stream (delivered ?s)) (stream (frames_in ?s))"
    using parts(4) by (simp add: delivery_inv_def concat_map_prefix_mono)
  moreover have "prefix (stream (frames_in ?s)) (wire_in ?s)"
    using reader_inv_stream [OF parts(2)] by (auto simp: prefix_def)
  ultimately have "prefix (wire_out ?s) (wire_in ?s)" by (blast intro: prefix_order.trans)
  then show ?thesis using e parts(4) by (auto simp: echo_session_def delivery_inv_def)
qed

theorem echo_server_echoes_witness:
  "prefix [0, 0, 0, 2 :: byte] [0, 0, 0, 2, 72, 105] \<and> accepted (heap echo_demo 0) = [[72, 105]]"
  using echo_server_echoes [OF fresh_quiet_world served_echo_demo, of 0] by (auto simp: echo_demo_fields)

text \<open>
  C23: no event a started echo server can meet raises an exception or has undefined behaviour, and
  afterwards exactly one accept is under way again, so that the server stays reachable.
\<close>

theorem echo_server_survives:
  assumes "fresh w0" and "served occurs echo_handle (echo_listening path w0) w" and "occurs e w"
  shows "\<exists>w'. echo_handle e w = Ok () w' \<and> accepts w' = 1"
  using echo_program.event_ok [OF served_echo_inv [OF assms(1,2)] assms(3)] by (auto simp: echo_inv_def)

theorem echo_server_survives_witness:
  "\<exists>w'. echo_handle (Accepted bad_message) echo_demo = Ok () w' \<and> accepts w' = 1"
  using echo_server_survives [OF fresh_quiet_world served_echo_demo, of "Accepted bad_message"]
  by (simp add: echo_demo_fields)

text \<open>
  C24: \<open>main\<close> of the echo server, once its options are parsed, on every path. If help is asked for or an
  option is invalid it prints the usage and does nothing else, not even remove the endpoint; the exit code
  is a failure exactly if an option was invalid, which is reported. Otherwise it removes the endpoint
  before it binds and after it ends. If binding fails it reports the error and still ends with the
  exit code of a success; otherwise it ends when a signal arrives, with the shutdown message, and not before.
\<close>

theorem echo_server_main_outcomes:
  assumes "echo_server_application (os_getopt os) args = Some app" and "fresh w"
    and "\<not> show_help app \<longrightarrow> feasible (\<lambda>e. e = Signal) occurs echo_handle events
      (echo_listening (endpoint app) (fold print_error (error_lines app) w))"
  shows "\<exists>r w'. echo_server_main os args events w = Some (Ok r w')
    \<and> (if show_help app
       then r = Some (if error_lines app = [] then EXIT_SUCCESS else EXIT_FAILURE)
         \<and> error_lines app \<in> {[], [''error: invalid option'']}
         \<and> w' = w\<lparr>cout := cout w @ map text_bytes echo_server_usage, cerr := cerr w @ map text_bytes (error_lines app)\<rparr>
       else case os_bind os (endpoint app) of
         Some code \<Rightarrow> r = Some EXIT_SUCCESS \<and> last (cerr w') = text_bytes (''error: '' @ os_error_text os code)
           \<and> syscalls w' = syscalls w @ [Unlink (endpoint app), Bind (endpoint app), Unlink (endpoint app)]
       | None \<Rightarrow> r = (if Signal \<in> set events then Some EXIT_SUCCESS else None)
           \<and> (Signal \<in> set events \<longrightarrow> last (cout w') = text_bytes ''info: shutdown''
               \<and> last (syscalls w') = Unlink (endpoint app)))"
proof (cases "show_help app")
  case True
  then show ?thesis using assms(1) echo_server_parsed [OF assms(1)]
    by (auto simp: echo_server_main_def Let_def usage_shown_eq usage_shown_def parsed_def EXIT_SUCCESS_def EXIT_FAILURE_def)
next
  case run: False
  let ?w0 = "fold print_error (error_lines app) w"
  have fr: "fresh ?w0" and sc: "syscalls ?w0 = syscalls w" using assms(2) by simp_all
  have ec: "exit_code app = EXIT_SUCCESS" using echo_server_parsed [OF assms(1)] run by (simp add: parsed_def)
  note s = echo_program.serve_ok [OF echo_listening_inv [OF fr] mp [OF assms(3) run]]
  show ?thesis
  proof (cases "os_bind os (endpoint app)")
    case None
    then show ?thesis using s assms(1) run ec
      by (auto simp: echo_server_main_def Let_def echo_server_run_def echo_server_def open_acceptor_def
          unlink_def echo_listening_def print_def print_bytes_def)
  next
    case (Some code)
    then show ?thesis using assms(1) run ec sc
      by (simp add: echo_server_main_def Let_def echo_server_run_def echo_server_def open_acceptor_def
          unlink_def print_error_def)
  qed
qed

lemma echo_demo_application:
  "echo_server_application (os_getopt demo_os) [] = Some \<lparr>exit_code = 0, show_help = False,
     endpoint = ''/tmp/com_example_echo.sock'', error_lines = []\<rparr>"
  by (simp add: echo_server_application_def demo_options echo_server_switch_def EXIT_SUCCESS_def)

lemma echo_demo_invalid_option:
  "echo_server_application (os_getopt demo_os) [(63, '''')] = Some \<lparr>exit_code = 1, show_help = True,
     endpoint = ''/tmp/com_example_echo.sock'', error_lines = [''error: invalid option'']\<rparr>"
  by (subst echo_server_application_def, subst option_loop.simps)
    (simp add: demo_os_def echo_server_switch_def invalid_option_def EXIT_FAILURE_def)

lemma echo_demo_feasible: "feasible (\<lambda>e. e = Signal) occurs echo_handle [Accepted no_error, Signal]
    (echo_listening path quiet_world)"
  by (simp add: echo_on_accept_def echo_connected_eq echo_listening_def echo_do_accept_def)

theorem echo_server_main_outcomes_witness:
  "(\<exists>r w'. echo_server_main demo_os [] [Accepted no_error, Signal] quiet_world = Some (Ok r w')
      \<and> r = Some 0 \<and> last (cout w') = text_bytes ''info: shutdown'')
   \<and> (\<exists>w'. echo_server_main demo_os [(63, '''')] [] quiet_world = Some (Ok (Some 1) w')
      \<and> cout w' = map text_bytes echo_server_usage \<and> syscalls w' = [])"
proof
  show "\<exists>r w'. echo_server_main demo_os [] [Accepted no_error, Signal] quiet_world = Some (Ok r w')
      \<and> r = Some 0 \<and> last (cout w') = text_bytes ''info: shutdown''"
    using echo_server_main_outcomes [OF echo_demo_application fresh_quiet_world, of "[Accepted no_error, Signal]"]
    by (simp add: echo_demo_feasible EXIT_SUCCESS_def del: feasible.simps) blast
  show "\<exists>w'. echo_server_main demo_os [(63, '''')] [] quiet_world = Some (Ok (Some 1) w')
      \<and> cout w' = map text_bytes echo_server_usage \<and> syscalls w' = []"
    using echo_server_main_outcomes [OF echo_demo_invalid_option fresh_quiet_world, of "[]"]
    by (simp add: EXIT_FAILURE_def quiet_world_def)
qed

end
