(* ===== verification/Client_Loop.thy ===== *)
theory Client_Loop
  imports Server_Loop
begin

text \<open>
  What the three example clients share: connecting, the loop
  \<open>while (!done) context.run_one()\<close> and leaving the scope in which the session lives. The contract
  \<open>client_program\<close> turns an invariant that every event keeps into facts on the loop.
\<close>

section \<open>Events and the loop\<close>

datatype client_event =
    Net sid nat error_code bytes
  | Interrupt                          \<comment> \<open>\<open>SIGINT\<close> or \<open>SIGTERM\<close>\<close>
  | Input error_code nat bytes         \<comment> \<open>the completion of a read from the console\<close>

definition connect ::
    "'g os \<Rightarrow> string \<Rightarrow> ('m, 'c, 'x) world_scheme \<Rightarrow> (unit, ('m, 'c, 'x) world_scheme) res" where
  "connect os path w = (case os_connect os path of Some code \<Rightarrow> Exc (System_error code) w | None \<Rightarrow> Ok () w)"

text \<open>
  The loop on the events the environment delivers: true when the condition has ended it, false when
  it still waits (or spins: \<open>run_one\<close> returns at once when nothing is pending).
\<close>

fun run_until :: "('w \<Rightarrow> bool) \<Rightarrow> ('e \<Rightarrow> 'w \<Rightarrow> (unit, 'w) res) \<Rightarrow> 'e list \<Rightarrow> 'w \<Rightarrow> (bool, 'w) res" where
  "run_until stop handle [] w = Ok (stop w) w"
| "run_until stop handle (e # es) w =
     (if stop w then Ok True w else seq (handle e w) (run_until stop handle es))"

fun possible ::
    "('w \<Rightarrow> bool) \<Rightarrow> ('e \<Rightarrow> 'w \<Rightarrow> bool) \<Rightarrow> ('e \<Rightarrow> 'w \<Rightarrow> (unit, 'w) res) \<Rightarrow> 'e list \<Rightarrow> 'w \<Rightarrow> bool" where
  "possible stop guard handle [] w = True"
| "possible stop guard handle (e # es) w =
     (stop w \<or> guard e w \<and> (case handle e w of Ok _ w' \<Rightarrow> possible stop guard handle es w' | _ \<Rightarrow> True))"

text \<open>
  Leaving the scope: the last references to the session, if there is one, are dropped with the local
  variables, and its destructor closes it.
\<close>

definition leave ::
    "('m, 'c, ('m, 'c, 'x) world_scheme) user_code
     \<Rightarrow> ('m, 'c, 'x) world_scheme \<Rightarrow> (unit, ('m, 'c, 'x) world_scheme) res" where
  "leave U w = (if next_sid w = 0 then Ok () w else destroy_session U 0 w)"

locale client_program =
  fixes stop :: "'w \<Rightarrow> bool" and guard :: "'e \<Rightarrow> 'w \<Rightarrow> bool"
    and handle :: "'e \<Rightarrow> 'w \<Rightarrow> (unit, 'w) res" and inv :: "'w \<Rightarrow> bool"
  assumes event_keeps: "inv w \<Longrightarrow> \<not> stop w \<Longrightarrow> guard e w \<Longrightarrow> handle e w \<noteq> Undef \<and> res_all inv (handle e w)"
begin

lemma run_until_keeps:
  "inv w \<Longrightarrow> possible stop guard handle es w \<Longrightarrow>
   run_until stop handle es w \<noteq> Undef \<and> res_all inv (run_until stop handle es w)"
proof (induction es arbitrary: w)
  case (Cons e es)
  show ?case
  proof (cases "stop w")
    case False
    then have g: "guard e w" using Cons.prems(2) by simp
    show ?thesis using event_keeps [OF Cons.prems(1) False g] Cons.IH Cons.prems(2) False
      by (cases "handle e w") auto
  qed (use Cons.prems in simp)
qed simp

lemma run_until_Ok: "run_until stop handle es w = Ok b w' \<Longrightarrow> b = stop w'"
proof (induction es arbitrary: w)
  case (Cons e es)
  then show ?case by (cases "handle e w") (auto split: if_splits)
qed simp

text \<open>Nothing happens any more in a world in which no event can occur.\<close>

lemma run_until_stuck:
  assumes "\<not> stop w" "\<And>e. \<not> guard e w" "possible stop guard handle es w"
  shows "run_until stop handle es w = Ok False w"
  using assms by (cases es) simp_all

end

text \<open>A client whose events never raise an exception.\<close>

locale quiet_client_program = client_program +
  assumes event_returns: "inv w \<Longrightarrow> \<not> stop w \<Longrightarrow> guard e w \<Longrightarrow> returns (handle e w)"
begin

lemma run_until_returns:
  "inv w \<Longrightarrow> possible stop guard handle es w \<Longrightarrow>
   \<exists>w'. run_until stop handle es w = Ok (stop w') w' \<and> inv w'"
proof (induction es arbitrary: w)
  case (Cons e es)
  show ?case
  proof (cases "stop w")
    case False
    then have g: "guard e w" using Cons.prems(2) by simp
    show ?thesis using event_returns [OF Cons.prems(1) False g] event_keeps [OF Cons.prems(1) False g]
        Cons.IH Cons.prems(2) False
      by (cases "handle e w") auto
  qed (use Cons.prems in simp)
qed simp

end

section \<open>The session of a client\<close>

lemma console_fields [simp]:
  "cout (on_session i f w) = cout w" "cout (print_bytes m w) = cout w @ [m]"
  by (simp_all add: on_session_def print_bytes_def)

definition one_session :: "('m, 'c, 'x) world_scheme \<Rightarrow> bool" where
  "one_session w \<longleftrightarrow> store_inv {} w \<and> next_sid w = 1"

lemma keeps_one_session:
  "keeps {} w w' \<Longrightarrow> next_sid w' = next_sid w \<Longrightarrow> one_session w \<Longrightarrow> one_session w'"
  by (simp add: one_session_def keeps_def)

lemma one_session_event: "one_session w \<Longrightarrow> io_occurs i k err data w \<Longrightarrow> i = 0"
  by (simp add: one_session_def io_occurs_def)

lemma store_inv_new_session:
  "no_sessions w \<Longrightarrow> session_inv False s \<Longrightarrow> store_inv {} (with_new s w)"
  using store_inv_no_sessions [of w] by (simp add: store_inv_def)

lemma session_inv_reading:
  "session_inv False (read_header ((asio_session True)\<lparr>onmessage := User m\<rparr>) :: ('m, 'c) session)"
proof -
  let ?s = "asio_session True :: ('m, 'c) session"
  have "res_all (\<lambda>t. session_inv False t \<and> session_grows ?s t) (set_onmessage (User m) ?s)"
    by (rule set_onmessage_session_inv [OF session_inv_new]) simp
  then show ?thesis by (simp add: set_onmessage_def asio_session_def)
qed

lemma session_inv_sent: "session_inv False s \<Longrightarrow> valid_content m \<Longrightarrow> session_inv False (sent m s)"
  using send_session_inv [of False s m] by (simp add: send_valid)

end
