(* ===== verification/Echo_Client.thy ===== *)
theory Echo_Client
  imports Client_Loop
begin

text \<open>
  \<open>src/example/echo/echo_client.cpp\<close>: connect, send one message, print the first message that comes
  back and end. The program sets no close handler.
\<close>

section \<open>The program\<close>

datatype echo_reply = Print_reply

record echo_client_world = "(echo_reply, unit) console_world" +
  finished :: bool                     \<comment> \<open>the variable \<open>done\<close>\<close>

fun echo_client_on_message :: "echo_reply \<Rightarrow> bytes \<Rightarrow> echo_client_world \<Rightarrow> (unit, echo_client_world) res" where
  "echo_client_on_message Print_reply message w = Ok () ((print_bytes message w)\<lparr>finished := True\<rparr>)"

definition echo_client_user :: "(echo_reply, unit, echo_client_world) user_code" where
  "echo_client_user = \<lparr>run_message = echo_client_on_message, run_close = \<lambda>_ _. Ok ()\<rparr>"

definition echo_client_start ::
    "'g os \<Rightarrow> string \<Rightarrow> bytes \<Rightarrow> echo_client_world \<Rightarrow> (unit, echo_client_world) res" where
  "echo_client_start os path message w =
     seq (connect os path w) (\<lambda>w1.
       bind_res (create_session True w1) (\<lambda>session w2.
         seq (call_on session (set_onmessage (User Print_reply)) w2) (\<lambda>w3.
           ignore (call_on session (send message) w3))))"

fun echo_client_handle :: "client_event \<Rightarrow> echo_client_world \<Rightarrow> (unit, echo_client_world) res" where
  "echo_client_handle (Net i k err data) w = complete echo_client_user i k err data w"
| "echo_client_handle _ w = Ok () w"

text \<open>The only events are completions on the session: no signals and no console are waited for.\<close>

fun echo_client_occurs :: "client_event \<Rightarrow> echo_client_world \<Rightarrow> bool" where
  "echo_client_occurs (Net i k err data) w = io_occurs i k err data w"
| "echo_client_occurs _ w = False"

definition echo_client_run ::
    "'g os \<Rightarrow> echo_client_app \<Rightarrow> client_event list \<Rightarrow> echo_client_world \<Rightarrow> (bool, echo_client_world) res" where
  "echo_client_run os app events w =
     seq (echo_client_start os (endpoint app) (text_bytes (app_message app)) (w\<lparr>finished := False\<rparr>))
         (run_until finished echo_client_handle events)"

definition echo_client_usage :: "string list" where
  "echo_client_usage =
    [''echo-client, (C) 2024 Falk Werner'',
     ''Sample echo client'',
     '''',
     ''Usage:'',
     ''    echo-client -e <endpoint> -m <message>'',
     '''',
     ''Options:'',
     ''    -e, --endpoint <endpoint> - Endpoint to connect to (default): /tmp/com_example.sock)'',
     ''    -m, --message <message>   - message to send (default: Hi)'',
     ''    -h, --help                - Prints this message'',
     '''',
     ''Example:'',
     ''    echo-server -e /tmp/echo.sock -m 'Hello, World!'' @ [CHR 0x27]]"

definition echo_client_main ::
    "'g os \<Rightarrow> 'g \<Rightarrow> client_event list \<Rightarrow> echo_client_world \<Rightarrow> (int option, echo_client_world) res option" where
  "echo_client_main os args events w =
     (case echo_client_application (os_getopt os) args of
        None \<Rightarrow> None
      | Some app \<Rightarrow> Some (
          let w0 = fold print_error (error_lines app) w in
          if \<not> show_help app then
            (case echo_client_run os app events w0 of
               Ok ended w1 \<Rightarrow>
                 if ended then seq (leave echo_client_user w1) (Ok (Some (exit_code app))) else Ok None w1
             | Exc e w1 \<Rightarrow>
                 seq (leave echo_client_user w1) (\<lambda>w2.
                   Ok (Some (exit_code app)) (print_error (''error: '' @ what os e) w2))
             | Undef \<Rightarrow> Undef)
          else Ok (Some (exit_code app)) (fold print echo_client_usage w0)))"

section \<open>The contract\<close>

interpretation echo_client: passive_user echo_client_user "\<lambda>_ _. True" "\<lambda>_ w. w"
proof
  fix B m message and w :: echo_client_world
  assume "store_inv B w"
  then show "res_all (keeps B w) (run_message echo_client_user m message w)"
    by (cases m) (simp add: echo_client_user_def keeps_heap print_bytes_def)
qed (simp_all add: echo_client_user_def)

text \<open>
  Only the one message is ever sent. Before the reply nothing was printed; at most one message is printed, and every message the handler
  is given is.
\<close>

definition echo_client_inv :: "bytes list \<Rightarrow> bytes list \<Rightarrow> echo_client_world \<Rightarrow> bool" where
  "echo_client_inv ms out w \<longleftrightarrow> one_session w
     \<and> onmessage (heap w 0) = (if socket_open (heap w 0) then User Print_reply else No_op)
     \<and> onclose (heap w 0) = Empty \<and> accepted (heap w 0) = ms \<and> cout w = out @ delivered (heap w 0)
     \<and> length (delivered (heap w 0)) = (if finished w then 1 else 0)"

lemma echo_client_fields [simp]:
  "cout (on_session i f w) = cout w" "finished (on_session i f w) = finished w"
  "next_sid (w\<lparr>finished := b\<rparr>) = next_sid w" "heap (w\<lparr>finished := b\<rparr>) = heap w"
  "finished (print_bytes m w) = finished w" "cout (print_bytes m w) = cout w @ [m]"
  by (simp_all add: on_session_def print_bytes_def)

lemma echo_client_io:
  assumes inv: "echo_client_inv ms out w" and run: "\<not> finished w" and io: "io_occurs i k err data w"
  shows "\<exists>w'. complete echo_client_user i k err data w = Ok () w' \<and> echo_client_inv ms out w'"
proof -
  have w: "store_inv {} w" "next_sid w = 1" "i = 0"
    using inv one_session_event [OF _ io] by (simp_all add: echo_client_inv_def one_session_def)
  have comp: "i < next_sid w" "k < length (pending (heap w i))" "io_result (pending (heap w i) ! k) err data"
    using io by (simp_all add: io_occurs_def)
  have keep: "one_session w'" if "complete echo_client_user i k err data w = Ok () w'" "next_sid w' = 1" for w'
    using echo_client.complete_keeps [OF w(1) comp] that by (simp add: keeps_def one_session_def)
  have ca: "echo_client.closing_allowed i w" by (simp add: echo_client.closing_allowed_def)
  show ?thesis
  proof (rule echo_client.complete_outcome [OF w(1) comp ca])
    fix s assume s: "complete echo_client_user i k err data w = Ok () (on_session i (\<lambda>_. s) w)" "same_face (heap w i) s"
    then show ?thesis using inv keep [OF s(1)] w by (auto simp: echo_client_inv_def same_face_def)
  next
    fix s e assume s: "same_face (heap w i) s"
      "complete echo_client_user i k err data w = Ok () (on_session i (\<lambda>_. closed_by e s) (echo_client.close_effect i w))"
    have "echo_client.close_effect i w = w" by (simp add: echo_client.close_effect_def split: func.split)
    then show ?thesis using inv keep [OF s(2)] s w by (auto simp: echo_client_inv_def same_face_def)
  next
    fix m s p
    assume s: "onmessage (heap w i) = User m"
      "same_face ((heap w i)\<lparr>delivered := delivered (heap w i) @ [p]\<rparr>) s"
      and eq: "complete echo_client_user i k err data w = seq (swallow (run_message echo_client_user m p (on_session i (\<lambda>_. s) w)))
         (\<lambda>w2. Ok () (on_session i read_header w2))"
    let ?w' = "on_session i read_header ((print_bytes p (on_session i (\<lambda>_. s) w))\<lparr>finished := True\<rparr>)"
    have c: "complete echo_client_user i k err data w = Ok () ?w'"
      using eq by (cases m) (simp add: echo_client_user_def)
    show ?thesis using inv run keep [OF c] c s w by (auto simp: echo_client_inv_def same_face_def split: if_splits)
  qed
qed

lemma echo_client_event_ok:
  "echo_client_inv ms out w \<Longrightarrow> \<not> finished w \<Longrightarrow> echo_client_occurs e w \<Longrightarrow>
   \<exists>w'. echo_client_handle e w = Ok () w' \<and> echo_client_inv ms out w'"
  using echo_client_io [of ms out w] by (cases e) auto

interpretation echo_client_program:
  quiet_client_program finished echo_client_occurs echo_client_handle "echo_client_inv ms out" for ms out
proof
  fix w e assume "echo_client_inv ms out w" "\<not> finished w" "echo_client_occurs e w"
  from echo_client_event_ok [OF this]
  show "echo_client_handle e w \<noteq> Undef \<and> res_all (echo_client_inv ms out) (echo_client_handle e w)"
    and "returns (echo_client_handle e w)"
    by auto
qed

lemma echo_client_leave:
  assumes "echo_client_inv ms out w"
  shows "\<exists>w'. leave echo_client_user w = Ok () w' \<and> \<not> socket_open (heap w' 0)
    \<and> delivered (heap w' 0) = delivered (heap w 0) \<and> cout w' = cout w"
proof -
  have "echo_client.closing_allowed 0 w" by (simp add: echo_client.closing_allowed_def)
  moreover have "echo_client.close_effect 0 w = w" by (simp add: echo_client.close_effect_def split: func.split)
  ultimately show ?thesis using assms
    by (simp add: leave_def destroy_session_def close_def echo_client.close_intern_eq echo_client_inv_def one_session_def)
qed

text \<open>Once the session is closed without a reply, this never changes.\<close>

lemma echo_client_io_closed:
  assumes inv: "echo_client_inv ms out w" and closed: "\<not> socket_open (heap w 0)" "\<not> finished w"
    and io: "io_occurs i k err data w" and c: "complete echo_client_user i k err data w = Ok () w'"
    and inv': "echo_client_inv ms out w'"
  shows "\<not> socket_open (heap w' 0) \<and> \<not> finished w'"
proof -
  have w: "store_inv {} w" "next_sid w = 1"
    using inv by (simp_all add: echo_client_inv_def one_session_def)
  have "res_all (keeps {} w) (complete echo_client_user i k err data w)"
    using echo_client.complete_keeps [OF w(1)] io by (simp add: io_occurs_def)
  then have "session_grows (heap w 0) (heap w' 0)"
    using c w(2) by (simp add: keeps_def grows_def)
  then show ?thesis using inv inv' closed by (auto simp: session_grows_def echo_client_inv_def split: if_splits)
qed

interpretation echo_client_closed: client_program finished echo_client_occurs echo_client_handle
  "\<lambda>w. echo_client_inv ms out w \<and> \<not> socket_open (heap w 0) \<and> \<not> finished w" for ms out
proof
  fix w e assume w: "echo_client_inv ms out w \<and> \<not> socket_open (heap w 0) \<and> \<not> finished w"
    and g: "echo_client_occurs e w"
  obtain i k err data where e: "e = Net i k err data" "io_occurs i k err data w" using g by (cases e) auto
  obtain w' where c: "complete echo_client_user i k err data w = Ok () w'" "echo_client_inv ms out w'"
    using echo_client_io [OF _ _ e(2)] w by blast
  then show "echo_client_handle e w \<noteq> Undef \<and> res_all (\<lambda>w. echo_client_inv ms out w \<and> \<not> socket_open (heap w 0)
      \<and> \<not> finished w) (echo_client_handle e w)"
    using echo_client_io_closed [OF _ _ _ e(2) c(1,2)] w e(1) by simp
qed

section \<open>Properties\<close>

text \<open>The world once the message is queued.\<close>

definition echo_client_started :: "bytes \<Rightarrow> echo_client_world \<Rightarrow> echo_client_world" where
  "echo_client_started message w = with_new (sent message (read_header ((asio_session True)\<lparr>onmessage := User Print_reply\<rparr>)))
     (w\<lparr>finished := False\<rparr>)"

lemma echo_client_start_eq:
  "echo_client_start os path message (w\<lparr>finished := False\<rparr>) =
     (case os_connect os path of
        Some code \<Rightarrow> Exc (System_error code) (w\<lparr>finished := False\<rparr>)
      | None \<Rightarrow>
          if valid_content message then Ok () (echo_client_started message w)
          else Exc (Runtime_error ''invalid message size'')
            (with_new (read_header ((asio_session True)\<lparr>onmessage := User Print_reply\<rparr>)) (w\<lparr>finished := False\<rparr>)))"
  by (simp add: echo_client_start_def connect_def create_session_def ignore_def call_on_def set_onmessage_def
      send_cases on_session_def echo_client_started_def with_new_def sent_def Let_def asio_session_def
      split: option.split)

lemma echo_client_started_inv:
  assumes "no_sessions w" "valid_content message"
  shows "echo_client_inv [message] (cout w) (echo_client_started message w)"
proof -
  let ?s = "sent message (read_header ((asio_session True)\<lparr>onmessage := User Print_reply\<rparr>)) :: (echo_reply, unit) session"
  have "session_inv False ?s" by (rule session_inv_sent [OF session_inv_reading assms(2)])
  then have "store_inv {} (with_new ?s (w\<lparr>finished := False\<rparr>))"
    using assms(1) by (intro store_inv_new_session) (simp_all add: no_sessions_def)
  then show ?thesis using assms(1)
    by (simp add: echo_client_inv_def one_session_def echo_client_started_def no_sessions_def with_new_def asio_session_def)
qed

text \<open>
  C33: an echo client that could connect and whose message has an admissible size prints nothing before a
  reply; when it ends, it has printed exactly one message, the first one that came back, it ends with the
  exit code of its options and its session is closed.
\<close>

theorem echo_client_prints_first_reply:
  assumes "echo_client_application (os_getopt os) args = Some app" and "\<not> show_help app"
    and "no_sessions w" and "os_connect os (endpoint app) = None" and "valid_content (text_bytes (app_message app))"
    and "possible finished echo_client_occurs echo_client_handle events
      (echo_client_started (text_bytes (app_message app)) (fold print_error (error_lines app) w))"
  shows "\<exists>r w'. echo_client_main os args events w = Some (Ok r w')
    \<and> (r = None \<longrightarrow> cout w' = cout w)
    \<and> (r \<noteq> None \<longrightarrow> r = Some (exit_code app) \<and> \<not> socket_open (heap w' 0)
        \<and> (\<exists>p. delivered (heap w' 0) = [p] \<and> cout w' = cout w @ [p]))"
proof -
  let ?w0 = "fold print_error (error_lines app) w"
  let ?w1 = "echo_client_started (text_bytes (app_message app)) ?w0"
  have ns: "no_sessions ?w0" and out: "cout ?w0 = cout w"
    using assms(3) by (simp_all add: no_sessions_def)
  obtain w2 where w2: "run_until finished echo_client_handle events ?w1 = Ok (finished w2) w2"
    "echo_client_inv [text_bytes (app_message app)] (cout ?w0) w2"
    using echo_client_program.run_until_returns [OF echo_client_started_inv [OF ns assms(5)] assms(6)] by blast
  obtain w3 where w3: "leave echo_client_user w2 = Ok () w3" "\<not> socket_open (heap w3 0)"
    "delivered (heap w3 0) = delivered (heap w2 0)" "cout w3 = cout w2"
    using echo_client_leave [OF w2(2)] by blast
  show ?thesis using assms(1,2,4,5) w2 w3
    by (auto simp: echo_client_main_def echo_client_run_def echo_client_start_eq Let_def echo_client_inv_def
        length_Suc_conv split: if_splits)
qed

text \<open>A run: the message Hi is sent, and the answer Ho comes back.\<close>

definition quiet_echo_client :: echo_client_world where
  "quiet_echo_client = \<lparr>heap = (\<lambda>_. asio_session False), next_sid = 0, cout = [], cerr = [], finished = False\<rparr>"

definition echo_client_demo_events :: "client_event list" where
  "echo_client_demo_events = [Net 0 0 no_error [0, 0, 0, 2], Net 0 1 no_error [72, 111]]"

lemma echo_client_demo_application:
  "echo_client_application (os_getopt demo_os) [] = Some \<lparr>exit_code = 0, show_help = False,
     endpoint = ''/tmp/com_example_echo.sock'', error_lines = [], app_message = ''Hi''\<rparr>"
  by (simp add: echo_client_application_def demo_options echo_client_switch_def EXIT_SUCCESS_def)

lemma no_sessions_quiet_echo_client: "no_sessions quiet_echo_client"
  by (simp add: no_sessions_def quiet_echo_client_def)

lemma valid_Hi: "valid_content (text_bytes ''Hi'')"
  by (simp add: valid_content_def text_bytes_def)

lemmas echo_client_demo_defs = echo_client_started_def quiet_echo_client_def with_new_def sent_def
  echo_client_demo_events_def io_occurs_def echo_client_user_def print_bytes_def text_bytes_def header_of_def run_defs

lemma echo_client_demo_possible:
  "possible finished echo_client_occurs echo_client_handle echo_client_demo_events
     (echo_client_started (text_bytes ''Hi'') quiet_echo_client)"
  by (simp add: echo_client_demo_defs)

theorem echo_client_prints_first_reply_witness:
  "\<exists>r w'. echo_client_main demo_os [] echo_client_demo_events quiet_echo_client = Some (Ok r w')
    \<and> (r \<noteq> None \<longrightarrow> (\<exists>p. cout w' = [p]))"
  using echo_client_prints_first_reply [OF echo_client_demo_application _ no_sessions_quiet_echo_client,
      of echo_client_demo_events] valid_Hi echo_client_demo_possible
  by (auto simp: quiet_echo_client_def)

text \<open>
  C34: an echo client whose session is closed before a reply has come never ends and prints nothing,
  whatever happens afterwards: it has set no close handler that could end its loop.
\<close>

theorem echo_client_waits_for_ever:
  assumes "no_sessions w" and "valid_content message"
    and "possible finished echo_client_occurs echo_client_handle es (echo_client_started message w)"
    and "run_until finished echo_client_handle es (echo_client_started message w) = Ok False w1"
    and "\<not> socket_open (heap w1 0)"
    and "possible finished echo_client_occurs echo_client_handle later w1"
  shows "\<exists>w2. run_until finished echo_client_handle later w1 = Ok False w2 \<and> cout w2 = cout w"
proof -
  have inv: "echo_client_inv [message] (cout w) w1" "\<not> finished w1"
    using echo_client_program.run_until_returns [OF echo_client_started_inv [OF assms(1,2)] assms(3)] assms(4)
    by auto
  note closed = echo_client_closed.run_until_keeps [OF conjI [OF inv(1) conjI [OF assms(5) inv(2)]] assms(6)]
  obtain w2 where w2: "run_until finished echo_client_handle later w1 = Ok (finished w2) w2"
    "echo_client_inv [message] (cout w) w2"
    using echo_client_program.run_until_returns [OF inv(1) assms(6)] by blast
  then show ?thesis using closed by (simp add: echo_client_inv_def)
qed

definition echo_client_closed_world :: echo_client_world where
  "echo_client_closed_world = the (state_of (run_until finished echo_client_handle [Net 0 0 bad_message []]
     (echo_client_started (text_bytes ''Hi'') quiet_echo_client)))"

lemma echo_client_closed_run:
  "run_until finished echo_client_handle [Net 0 0 bad_message []]
     (echo_client_started (text_bytes ''Hi'') quiet_echo_client) = Ok False echo_client_closed_world"
  "possible finished echo_client_occurs echo_client_handle [Net 0 0 bad_message []]
     (echo_client_started (text_bytes ''Hi'') quiet_echo_client)"
  "\<not> socket_open (heap echo_client_closed_world 0)"
  "possible finished echo_client_occurs echo_client_handle [Net 0 0 bad_message []] echo_client_closed_world"
  by (simp_all add: echo_client_closed_world_def echo_client_demo_defs bad_message_def EBADMSG_def)

theorem echo_client_waits_for_ever_witness:
  "\<exists>w2. run_until finished echo_client_handle [Net 0 0 bad_message []] echo_client_closed_world = Ok False w2
    \<and> cout w2 = []"
  using echo_client_waits_for_ever [OF no_sessions_quiet_echo_client valid_Hi echo_client_closed_run(2,1,3,4)]
  by (simp add: quiet_echo_client_def)

text \<open>
  C35: when the echo client cannot connect, or its message is empty or too long, it reports the error
  and ends, with the same exit code as after a success.
\<close>

theorem echo_client_reports_errors:
  assumes "echo_client_application (os_getopt os) args = Some app" and "\<not> show_help app" and "no_sessions w"
    and "os_connect os (endpoint app) = Some code \<or> \<not> valid_content (text_bytes (app_message app))"
  shows "\<exists>w'. echo_client_main os args events w = Some (Ok (Some (exit_code app)) w')
    \<and> last (cerr w') = text_bytes (''error: '' @
        (case os_connect os (endpoint app) of Some code \<Rightarrow> os_error_text os code | None \<Rightarrow> ''invalid message size''))"
proof (cases "os_connect os (endpoint app)")
  case None
  then have bad: "\<not> valid_content (text_bytes (app_message app))" using assms(4) by simp
  let ?w0 = "fold print_error (error_lines app) w"
  let ?s = "read_header ((asio_session True)\<lparr>onmessage := User Print_reply\<rparr>)"
  have "next_sid w = 0" using assms(3) by (simp add: no_sessions_def)
  moreover have "echo_client.close_effect i v = v" for i v
    by (simp add: echo_client.close_effect_def split: func.split)
  moreover have "echo_client.closing_allowed i v" for i v by (simp add: echo_client.closing_allowed_def)
  ultimately show ?thesis using assms(1,2) None bad
    by (simp add: echo_client_main_def echo_client_run_def echo_client_start_eq Let_def leave_def
        destroy_session_def close_def echo_client.close_intern_eq print_error_def)
next
  case (Some c)
  then show ?thesis using assms(1-3)
    by (simp add: echo_client_main_def echo_client_run_def echo_client_start_eq Let_def leave_def no_sessions_def
        print_error_def)
qed

theorem echo_client_reports_errors_witness:
  "\<exists>w'. echo_client_main (demo_os\<lparr>os_connect := \<lambda>_. Some 2\<rparr>) [] [] quiet_echo_client = Some (Ok (Some 0) w')
    \<and> last (cerr w') = text_bytes ''error: system error''"
proof -
  let ?os = "demo_os\<lparr>os_connect := \<lambda>_. Some 2\<rparr>"
  have "echo_client_application (os_getopt ?os) [] = Some \<lparr>exit_code = 0, show_help = False,
      endpoint = ''/tmp/com_example_echo.sock'', error_lines = [], app_message = ''Hi''\<rparr>"
    using echo_client_demo_application by simp
  from echo_client_reports_errors [OF this _ no_sessions_quiet_echo_client, of 2 "[]"] show ?thesis
    by (simp add: demo_os_def)
qed

end
