(* ===== verification/Registry.thy ===== *)
theory Registry
  imports Server_Loop "HOL-Library.Multiset"
begin

text \<open>
  The session table of the chat and the notification server: a \<open>std::unordered_map\<close> from 32-bit
  ids to sessions, the search for a free id, and the two loops over the table. The order in which
  a hash table is traversed is not specified: it is a parameter.
\<close>

section \<open>The table\<close>

record ('m, 'c) registry_world = "('m, 'c) server_world" +
  sessions :: "(32 word \<times> sid) list"
  last_id :: "32 word"

type_synonym order = "(32 word \<times> sid) list \<Rightarrow> (32 word \<times> sid) list"

text \<open>
  The traversal: any permutation of the entries, chosen by the parameter (what is not a permutation
  is replaced by the order of insertion).
\<close>

definition traverse :: "order \<Rightarrow> (32 word \<times> sid) list \<Rightarrow> (32 word \<times> sid) list" where
  "traverse order table = (if mset (order table) = mset table then order table else table)"

definition ids :: "('m, 'c, 'x) registry_world_scheme \<Rightarrow> 32 word set" where
  "ids w = fst ` set (sessions w)"

text \<open>\<open>emplace\<close> leaves an existing entry alone.\<close>

definition emplace :: "32 word \<Rightarrow> sid \<Rightarrow> (32 word \<times> sid) list \<Rightarrow> (32 word \<times> sid) list" where
  "emplace key session table = (if map_of table key = None then table @ [(key, session)] else table)"

text \<open>The loop of \<open>create_id\<close>: \<open>while ((id == 0) || has_id(id)) id++;\<close>\<close>

partial_function (option) next_free :: "(32 word \<Rightarrow> bool) \<Rightarrow> 32 word \<Rightarrow> 32 word option" where
  "next_free used key = (if key = 0 \<or> used key then next_free used (key + 1) else Some key)"

fun send_each ::
    "sid list \<Rightarrow> bytes \<Rightarrow> ('m, 'c, 'x) world_scheme \<Rightarrow> (unit, ('m, 'c, 'x) world_scheme) res" where
  "send_each [] message w = Ok () w"
| "send_each (s # ss) message w = seq (call_on s (send message) w) (send_each ss message)"

fun close_each ::
    "('m, 'c, ('m, 'c, 'x) world_scheme) user_code \<Rightarrow> sid list
     \<Rightarrow> ('m, 'c, 'x) world_scheme \<Rightarrow> (unit, ('m, 'c, 'x) world_scheme) res" where
  "close_each U [] w = Ok () w"
| "close_each U (s # ss) w = seq (close U s w) (close_each U ss)"

section \<open>Free ids\<close>

lemma next_free_result: "next_free used key = Some y \<Longrightarrow> y \<noteq> 0 \<and> \<not> used y"
  by (erule next_free.raw_induct [where P = "\<lambda>used key y. y \<noteq> 0 \<and> \<not> used y", rotated])
    (auto split: if_splits)

lemma next_free_distance:
  "key + of_nat d \<noteq> 0 \<Longrightarrow> \<not> used (key + of_nat d) \<Longrightarrow> \<exists>y. next_free used key = Some y"
proof (induction d arbitrary: key)
  case 0
  then show ?case by (subst next_free.simps) simp
next
  case (Suc d)
  have "\<exists>y. next_free used (key + 1) = Some y"
    using Suc.prems by (intro Suc.IH) (simp_all add: ac_simps)
  then show ?case by (subst next_free.simps) simp
qed

lemma next_free_ends_iff: "(\<exists>y. next_free used key = Some y) \<longleftrightarrow> (\<exists>y. y \<noteq> 0 \<and> \<not> used y)"
proof
  show "\<exists>y. next_free used key = Some y" if "\<exists>y. y \<noteq> 0 \<and> \<not> used y"
  proof -
    from that obtain y where y: "y \<noteq> 0" "\<not> used y" by blast
    have "key + of_nat (unat (y - key)) = y" by simp
    then show ?thesis using y next_free_distance [of key "unat (y - key)" used] by simp
  qed
qed (auto dest: next_free_result)

section \<open>Sending to all\<close>

definition broadcast :: "sid set \<Rightarrow> bytes \<Rightarrow> ('m, 'c, 'x) world_scheme \<Rightarrow> ('m, 'c, 'x) world_scheme" where
  "broadcast S message w = w\<lparr>heap := \<lambda>j. if j \<in> S then sent message (heap w j) else heap w j\<rparr>"

lemma broadcast_simps [simp]:
  "heap (broadcast S m w) = (\<lambda>j. if j \<in> S then sent m (heap w j) else heap w j)"
  "next_sid (broadcast S m w) = next_sid w"
  by (simp_all add: broadcast_def)

lemma broadcast_one: "on_session s (sent m) w = broadcast {s} m w"
  by (simp add: on_session_def broadcast_def fun_upd_def cong: if_cong)

lemma broadcast_insert: "s \<notin> S \<Longrightarrow> broadcast S m (broadcast {s} m w) = broadcast (insert s S) m w"
  by (auto simp: broadcast_def intro!: arg_cong [where f = "\<lambda>h. heap_update (\<lambda>_. h) w"])

lemma send_each_broadcast:
  "valid_content m \<Longrightarrow> distinct ss \<Longrightarrow> send_each ss m w = Ok () (broadcast (set ss) m w)"
proof (induction ss arbitrary: w)
  case Nil
  then show ?case by (simp add: broadcast_def)
next
  case (Cons s ss)
  have "call_on s (send m) w = Ok (length (write_queue (heap w s)) + 1) (broadcast {s} m w)"
    using call_on_Ok [where f = "send m" and i = s and w = w, OF send_valid [OF Cons.prems(1)]]
      broadcast_one [of s m w] by (simp add: on_session_def)
  then show ?case using Cons broadcast_insert [of s "set ss" m w] by simp
qed

lemma send_each_keeps: "store_inv B w \<Longrightarrow> res_all (keeps B w) (send_each ss m w)"
proof (induction ss arbitrary: w)
  case (Cons s ss)
  have "res_all (keeps B w) (call_on s (send m) w)"
    by (rule res_keeps_call_on [OF Cons.prems]) (rule send_session_inv [OF store_invD [OF Cons.prems]])
  then show ?case
    by (simp, rule res_all_seq) (metis Cons.IH keeps_def res_keeps_trans)
qed (simp add: keeps_refl)

lemma traverse_mset [simp]: "mset (traverse order table) = mset table"
  by (simp add: traverse_def)

lemma traverse_set [simp]: "set (traverse order table) = set table"
  by (rule mset_eq_setD) simp

lemma traverse_distinct: "distinct (map snd (traverse order table)) = distinct (map snd table)"
  by (rule mset_eq_imp_distinct_iff) (simp only: mset_map traverse_mset)

section \<open>The contract of the table\<close>

text \<open>
  \<open>add\<close> gives the session an unused id, as long as there is one; \<open>remove\<close> leaves a present entry
  where it is, and an absent one is undefined behaviour: its guard in the code is inverted.
\<close>

locale session_registry =
  fixes add :: "sid \<Rightarrow> ('m, 'c, 'x) registry_world_scheme \<Rightarrow> (32 word, ('m, 'c, 'x) registry_world_scheme) res"
    and remove :: "32 word \<Rightarrow> ('m, 'c, 'x) registry_world_scheme \<Rightarrow> (unit, ('m, 'c, 'x) registry_world_scheme) res"
    and send_all :: "order \<Rightarrow> bytes \<Rightarrow> ('m, 'c, 'x) registry_world_scheme \<Rightarrow> (unit, ('m, 'c, 'x) registry_world_scheme) res"
  assumes add_spec: "add s w = (case next_free (\<lambda>key. key \<in> ids w) (last_id w) of
      None \<Rightarrow> Undef
    | Some key \<Rightarrow> Ok key (w\<lparr>sessions := sessions w @ [(key, s)], last_id := key\<rparr>))"
    and remove_spec: "remove key w = (if key \<in> ids w then Ok () w else Undef)"
    and send_all_spec: "send_all order m w = send_each (map snd (traverse order (sessions w))) m w"
begin

lemma send_all_broadcast:
  assumes "valid_content m" and "distinct (map snd (sessions w))"
  shows "send_all order m w = Ok () (broadcast (snd ` set (sessions w)) m w)"
  using send_each_broadcast [OF assms(1), of "map snd (traverse order (sessions w))" w] assms(2)
  by (simp add: send_all_spec traverse_distinct)

lemma add_result:
  assumes "y \<noteq> 0" "y \<notin> ids w"
  shows "\<exists>key. add s w = Ok key (w\<lparr>sessions := sessions w @ [(key, s)], last_id := key\<rparr>) \<and> key \<noteq> 0 \<and> key \<notin> ids w"
proof -
  obtain key where key: "next_free (\<lambda>key. key \<in> ids w) (last_id w) = Some key"
    using next_free_ends_iff [of "\<lambda>key. key \<in> ids w"] assms by blast
  then show ?thesis using next_free_result [OF key] by (simp add: add_spec)
qed

lemma add_diverges: "\<forall>key. key \<noteq> 0 \<longrightarrow> key \<in> ids w \<Longrightarrow> add s w = Undef"
  using next_free_ends_iff [of "\<lambda>key. key \<in> ids w" "last_id w"] by (auto simp: add_spec split: option.split)

end

section \<open>Consecutive ids\<close>

text \<open>As no entry is ever removed, the ids are 1, 2, 3 and so on.\<close>

definition numbered :: "nat \<Rightarrow> (32 word \<times> sid) list" where
  "numbered n = map (\<lambda>i. (of_nat (Suc i), i)) [0..<n]"

lemma numbered_Suc: "numbered (Suc n) = numbered n @ [(of_nat (Suc n), n)]"
  by (simp add: numbered_def)

lemma numbered_sids [simp]: "map snd (numbered n) = [0..<n]" "snd ` set (numbered n) = {..<n}"
  by (auto simp: numbered_def comp_def image_image)

lemma numbered_ids: "fst ` set (numbered n) = of_nat ` {1..n}"
proof -
  have "{1..n} = Suc ` {0..<n}" by (simp only: image_Suc_atLeastLessThan atLeastLessThanSuc_atLeastAtMost One_nat_def)
  then show ?thesis by (simp only: numbered_def image_image set_map fst_conv set_upt)
qed

lemma of_nat_id_inject:
  assumes "m < 2 ^ 32" "n < 2 ^ 32"
  shows "(of_nat m :: 32 word) = of_nat n \<longleftrightarrow> m = n"
proof
  assume "(of_nat m :: 32 word) = of_nat n"
  then have "unat (of_nat m :: 32 word) = unat (of_nat n :: 32 word)" by (rule arg_cong)
  moreover have "unat (of_nat k :: 32 word) = k" if "k < 2 ^ 32" for k
    using that by (simp add: unsigned_of_nat take_bit_nat_eq_self_iff)
  ultimately show "m = n" using assms by simp
qed (rule arg_cong)

lemma next_free_numbered:
  assumes "Suc n < 2 ^ 32"
  shows "next_free (\<lambda>key. key \<in> of_nat ` {1..n}) (of_nat n) = Some (of_nat (Suc n))"
proof -
  have fresh: "(of_nat (Suc n) :: 32 word) \<notin> of_nat ` {1..n}"
  proof
    assume "(of_nat (Suc n) :: 32 word) \<in> of_nat ` {1..n}"
    then obtain m where m: "(of_nat (Suc n) :: 32 word) = of_nat m" "m \<le> n" by auto
    have "Suc n = m" by (rule iffD1 [OF of_nat_id_inject m(1)]) (use assms m(2) in simp_all)
    then show False using m(2) by simp
  qed
  have nz: "(of_nat (Suc n) :: 32 word) \<noteq> 0"
    using of_nat_id_inject [OF assms, of 0] by (simp del: of_nat_Suc)
  have "n = 0 \<or> (of_nat n :: 32 word) \<in> of_nat ` {1..n}" by auto
  then have "next_free (\<lambda>key. key \<in> of_nat ` {1..n}) (of_nat n :: 32 word)
      = next_free (\<lambda>key. key \<in> of_nat ` {1..n}) (of_nat n + 1)"
    by (subst next_free.simps) auto
  also have "\<dots> = Some (of_nat (Suc n))"
    using fresh nz by (subst next_free.simps) (simp add: ac_simps)
  finally show ?thesis .
qed

lemma numbered_distinct:
  assumes "n < 2 ^ 32" shows "distinct (map fst (numbered n))"
proof -
  have "inj_on (\<lambda>i. of_nat (Suc i) :: 32 word) {0..<n}"
  proof (rule inj_onI)
    fix i j assume ij: "i \<in> {0..<n}" "j \<in> {0..<n}" "(of_nat (Suc i) :: 32 word) = of_nat (Suc j)"
    have "Suc i = Suc j" by (rule iffD1 [OF of_nat_id_inject ij(3)]) (use assms ij in simp_all)
    then show "i = j" by simp
  qed
  then show ?thesis by (simp add: numbered_def comp_def distinct_map del: of_nat_Suc)
qed

lemma numbered_nonzero:
  assumes "n < 2 ^ 32" shows "0 \<notin> fst ` set (numbered n)"
proof
  assume "0 \<in> fst ` set (numbered n)"
  then obtain m where m: "(of_nat m :: 32 word) = of_nat 0" "1 \<le> m" "m \<le> n" by (auto simp: numbered_ids)
  have "m = 0" by (rule iffD1 [OF of_nat_id_inject m(1)]) (use assms m in simp_all)
  then show False using m(2) by simp
qed

end
