(* ===== verification/Registry_Server.thy ===== *)
theory Registry_Server
  imports Registry
begin

text \<open>
  The contract of a server that keeps its sessions in the table, with one close handler and one
  message handler per id, and the invariant such a server has: the sessions are numbered from 1,
  every session stays in the table, and has its handlers until it is closed. \<open>rest\<close> is the part of the
  world that neither sessions nor handlers touch.
\<close>

lemma registry_world_simps [simp]:
  "sessions (on_session i f w) = sessions w" "last_id (on_session i f w) = last_id w"
  "sessions (print_bytes b w) = sessions w" "last_id (print_bytes b w) = last_id w"
  "sessions (print l w) = sessions w" "last_id (print l w) = last_id w"
  "sessions (print_error l w) = sessions w" "last_id (print_error l w) = last_id w"
  "sessions (async_accept w) = sessions w" "last_id (async_accept w) = last_id w"
  "sessions (accept_done w) = sessions w" "last_id (accept_done w) = last_id w"
  "sessions (with_new s w) = sessions w" "last_id (with_new s w) = last_id w"
  "sessions (broadcast S m w) = sessions w" "last_id (broadcast S m w) = last_id w"
  "accepts (broadcast S m w) = accepts w"
  by (simp_all add: server_defs on_session_def with_new_def broadcast_def)

lemma registry_print_errors [simp]:
  "sessions (fold print_error ls w) = sessions w" "last_id (fold print_error ls w) = last_id w"
  by (induction ls arbitrary: w) simp_all

text \<open>
  When an exception leaves the \<open>try\<close> block, the server is destroyed before the sessions, and a
  session that is still open calls its close handler on the destroyed server.
\<close>

definition some_open :: "('m, 'c, 'x) world_scheme \<Rightarrow> bool" where
  "some_open w \<longleftrightarrow> list_ex (\<lambda>i. socket_open (heap w i)) [0..<next_sid w]"

lemma map_of_ids: "map_of (sessions w) key \<noteq> None \<longleftrightarrow> key \<in> ids w"
  by (auto simp: ids_def map_of_eq_None_iff)

lemma ids_simps [simp]:
  "ids (on_session i f w) = ids w" "ids (print_bytes b w) = ids w" "ids (print l w) = ids w"
  "ids (print_error l w) = ids w" "ids (async_accept w) = ids w" "ids (accept_done w) = ids w"
  "ids (with_new s w) = ids w"
  by (simp_all add: ids_def)

definition empty_table :: "('m, 'c, 'x) registry_world_scheme \<Rightarrow> bool" where
  "empty_table w \<longleftrightarrow> fresh w \<and> sessions w = [] \<and> last_id w = 0"

definition quiet_table :: "('m, 'c) registry_world" where
  "quiet_table = \<lparr>heap = (\<lambda>_. asio_session False), next_sid = 0, cout = [], cerr = [], accepts = 0, syscalls = [],
     sessions = [], last_id = 0\<rparr>"

lemma empty_quiet_table: "empty_table quiet_table"
  by (simp add: empty_table_def fresh_def no_sessions_def quiet_table_def)

definition same_handlers :: "('m, 'c) session \<Rightarrow> ('m, 'c) session \<Rightarrow> bool" where
  "same_handlers s t \<longleftrightarrow> socket_open t = socket_open s \<and> onmessage t = onmessage s \<and> onclose t = onclose s"

definition registry_ok :: "('m, 'c, 'x) registry_world_scheme \<Rightarrow> bool" where
  "registry_ok w \<longleftrightarrow> sessions w = numbered (next_sid w) \<and> last_id w = of_nat (next_sid w) \<and> next_sid w < 2 ^ 32"

definition same_registry :: "('m, 'c, 'x) registry_world_scheme \<Rightarrow> ('m, 'c, 'x) registry_world_scheme \<Rightarrow> bool" where
  "same_registry w w' \<longleftrightarrow> sessions w' = sessions w \<and> last_id w' = last_id w \<and> next_sid w' = next_sid w
     \<and> accepts w' = accepts w"

lemma registry_ok_ids: "registry_ok w \<Longrightarrow> ids w = of_nat ` {1..next_sid w}"
  by (simp add: registry_ok_def ids_def numbered_ids)

lemma registry_ok_key: "registry_ok w \<Longrightarrow> i < next_sid w \<Longrightarrow> of_nat (Suc i) \<in> ids w"
  by (auto simp: registry_ok_ids simp del: of_nat_Suc)

lemma registry_ok_next:
  assumes "registry_ok w" "Suc (next_sid w) < 2 ^ 32"
  shows "next_free (\<lambda>key. key \<in> ids w) (last_id w) = Some (of_nat (Suc (next_sid w)))"
  using next_free_numbered [OF assms(2)] assms(1)
  by (simp add: registry_ok_ids [OF assms(1)] registry_ok_def del: of_nat_Suc)

lemma registry_ok_full:
  assumes "registry_ok w" "Suc (next_sid w) = 2 ^ 32"
  shows "ids w = {key. key \<noteq> 0}"
proof -
  have n: "next_sid w = 2 ^ 32 - 1" using assms(2) by simp
  have "key \<in> of_nat ` {1..next_sid w}" if "key \<noteq> 0" for key :: "32 word"
  proof -
    have "unat key < 2 ^ 32" using unsigned_less [of key] by simp
    moreover have "unat key \<noteq> 0" using that by (simp only: unsigned_eq_0_iff not_False_eq_True)
    ultimately have "unat key \<in> {1..next_sid w}" by (simp add: n)
    then show ?thesis by (intro image_eqI [of _ _ "unat key"]) simp_all
  qed
  moreover have "0 \<notin> ids w"
    using numbered_nonzero [of "next_sid w"] assms by (simp add: registry_ok_def ids_def)
  ultimately show ?thesis by (auto simp: registry_ok_ids [OF assms(1)])
qed

lemma registry_ok_distinct: "registry_ok w \<Longrightarrow> distinct (map snd (sessions w))"
  by (simp add: registry_ok_def)

lemma registry_ok_sids: "registry_ok w \<Longrightarrow> snd ` set (sessions w) = {..<next_sid w}"
  by (simp add: registry_ok_def)

locale registry_server =
  passive_user U "\<lambda>c w. key_of c \<in> ids w" "\<lambda>c. print ''info: connection closed''"
  for U :: "('m, 'c, ('m, 'c, 'x) registry_world_scheme) user_code" and key_of :: "'c \<Rightarrow> 32 word" +
  fixes on_close :: "32 word \<Rightarrow> 'c" and on_message :: "32 word \<Rightarrow> 'm"
    and rest :: "('m, 'c, 'x) registry_world_scheme \<Rightarrow> 'r"
  assumes key_of_on_close: "key_of (on_close key) = key"
    and message_run: "registry_ok w \<Longrightarrow> key \<in> ids w \<Longrightarrow> valid_content p \<Longrightarrow>
      \<exists>w'. run_message U (on_message key) p w = Ok () w' \<and> same_registry w w'
        \<and> (\<forall>j. same_handlers (heap w j) (heap w' j)) \<and> rest w' = rest w"
    and rest_on_session: "rest (on_session i f w) = rest w"
    and rest_print: "rest (print l w) = rest w"
begin

definition registered :: "32 word \<Rightarrow> ('m, 'c) session \<Rightarrow> bool" where
  "registered key s \<longleftrightarrow>
     (if socket_open s then onmessage s = User (on_message key) \<and> onclose s = User (on_close key)
      else onmessage s = No_op \<and> onclose s = No_op)"

definition inv :: "('m, 'c, 'x) registry_world_scheme \<Rightarrow> bool" where
  "inv w \<longleftrightarrow> store_inv {} w \<and> accepts w = 1 \<and> registry_ok w
     \<and> (\<forall>i < next_sid w. registered (of_nat (Suc i)) (heap w i))"

lemma registered_face: "registered key s \<Longrightarrow> same_handlers s t \<Longrightarrow> registered key t"
  by (simp add: registered_def same_handlers_def)

lemma registered_closed: "registered key s \<Longrightarrow> registered key (closed_by e s)"
  by (auto simp: registered_def split: if_splits)

lemma registered_connected: "registered key (connected (on_message key) (on_close key))"
  by (simp add: registered_def)

lemma closing_ok:
  assumes inv: "inv w" and i: "i < next_sid w"
  shows "closing_allowed i w"
proof -
  have "registered (of_nat (Suc i)) (heap w i)" "of_nat (Suc i) \<in> ids w"
    using inv registry_ok_key [OF _ i] i by (auto simp: inv_def simp del: of_nat_Suc)
  then show ?thesis
    by (auto simp: registered_def closing_allowed_def key_of_on_close simp del: of_nat_Suc split: if_splits)
qed

lemma open_message:
  "inv w \<Longrightarrow> io_occurs i k err data w \<Longrightarrow> socket_open (heap w i)
   \<Longrightarrow> onmessage (heap w i) = User (on_message (of_nat (Suc i)))"
  by (simp add: inv_def io_occurs_def registered_def del: of_nat_Suc)

lemma same_registry_close_effect: "same_registry w (close_effect i w)"
  by (simp add: close_effect_def same_registry_def split: func.split)

lemma rest_close_effect: "rest (close_effect i w) = rest w"
  by (simp add: close_effect_def rest_print split: func.split)

lemma registry_ok_same: "registry_ok w \<Longrightarrow> same_registry w w' \<Longrightarrow> registry_ok w'"
  by (simp add: registry_ok_def same_registry_def)

lemma inv_upd:
  assumes "inv w" "store_inv {} w'" "same_registry w w'"
    and "\<And>i. i < next_sid w \<Longrightarrow> registered (of_nat (Suc i)) (heap w i) \<Longrightarrow> registered (of_nat (Suc i)) (heap w' i)"
  shows "inv w'"
  using assms registry_ok_same [of w w'] by (simp add: inv_def same_registry_def del: of_nat_Suc)

text \<open>The message handler has run on a session that shows it one message more, and the next read starts.\<close>

lemma message_ok:
  assumes inv: "inv w" and i: "i < next_sid w" and m: "onmessage (heap w i) = User m" and p: "valid_content p"
    and s: "same_face ((heap w i)\<lparr>delivered := delivered (heap w i) @ [p]\<rparr>) s"
  shows "\<exists>w2. run_message U m p (on_session i (\<lambda>_. s) w) = Ok () w2
    \<and> same_registry w (on_session i read_header w2) \<and> rest (on_session i read_header w2) = rest w
    \<and> (\<forall>j. same_handlers (heap w j) (heap (on_session i read_header w2) j))"
proof -
  let ?w1 = "on_session i (\<lambda>_. s) w"
  have ok: "registry_ok w" and reg: "registered (of_nat (Suc i)) (heap w i)"
    using inv i by (simp_all add: inv_def del: of_nat_Suc)
  have "m = on_message (of_nat (Suc i))"
    using m reg by (auto simp: registered_def simp del: of_nat_Suc split: if_splits)
  then obtain w2 where w2: "run_message U m p ?w1 = Ok () w2" "same_registry ?w1 w2"
    "\<forall>j. same_handlers (heap ?w1 j) (heap w2 j)" "rest w2 = rest ?w1"
    using message_run [of ?w1 "of_nat (Suc i)" p] registry_ok_key [OF ok i] ok p
    by (auto simp: registry_ok_def simp del: of_nat_Suc)
  have "same_handlers (heap w j) (heap (on_session i read_header w2) j)" for j
    using spec [OF w2(3), of j] s by (auto simp: same_handlers_def same_face_def split: if_splits)
  moreover have "rest (on_session i read_header w2) = rest w" by (simp only: rest_on_session w2(4))
  ultimately show ?thesis using w2 by (simp add: same_registry_def)
qed

lemma io_ok:
  assumes inv: "inv w" and io: "io_occurs i k err data w"
  shows "\<exists>w'. complete U i k err data w = Ok () w' \<and> inv w' \<and> same_registry w w' \<and> rest w' = rest w"
proof -
  have w: "store_inv {} w" using inv by (simp add: inv_def)
  have comp: "i < next_sid w" "k < length (pending (heap w i))" "io_result (pending (heap w i) ! k) err data"
    using io by (simp_all add: io_occurs_def)
  have keep: "store_inv {} w'" if "complete U i k err data w = Ok () w'" for w'
    using complete_keeps [OF w comp] that by (simp add: keeps_def)
  have reg: "registered (of_nat (Suc i)) (heap w i)" using inv comp(1) by (simp add: inv_def del: of_nat_Suc)
  show ?thesis
  proof (rule complete_outcome [OF w comp closing_ok [OF inv comp(1)]])
    fix s assume s: "complete U i k err data w = Ok () (on_session i (\<lambda>_. s) w)" "same_face (heap w i) s"
    have "inv (on_session i (\<lambda>_. s) w)"
      by (rule inv_upd [OF inv keep [OF s(1)]])
        (use s(2) in \<open>auto simp: same_registry_def same_face_def same_handlers_def elim: registered_face simp del: of_nat_Suc\<close>)
    then show ?thesis using s(1) by (auto simp: same_registry_def rest_on_session)
  next
    fix s e assume s: "same_face (heap w i) s"
      "complete U i k err data w = Ok () (on_session i (\<lambda>_. closed_by e s) (close_effect i w))"
    have "registered (of_nat (Suc i)) s"
      using s(1) registered_face [OF reg, of s] by (simp add: same_face_def same_handlers_def)
    then have "inv (on_session i (\<lambda>_. closed_by e s) (close_effect i w))"
      using same_registry_close_effect [of w i]
      by (intro inv_upd [OF inv keep [OF s(2)]]) (auto simp: same_registry_def registered_closed simp del: of_nat_Suc)
    then show ?thesis using s(2) same_registry_close_effect [of w i]
      by (auto simp: same_registry_def rest_on_session rest_close_effect)
  next
    fix m s p
    assume s: "onmessage (heap w i) = User m" "valid_content p"
      "same_face ((heap w i)\<lparr>delivered := delivered (heap w i) @ [p]\<rparr>) s"
      and eq: "complete U i k err data w = seq (swallow (run_message U m p (on_session i (\<lambda>_. s) w)))
         (\<lambda>w2. Ok () (on_session i read_header w2))"
    obtain w2 where w2: "run_message U m p (on_session i (\<lambda>_. s) w) = Ok () w2"
      "same_registry w (on_session i read_header w2)" "rest (on_session i read_header w2) = rest w"
      "\<forall>j. same_handlers (heap w j) (heap (on_session i read_header w2) j)"
      using message_ok [OF inv comp(1) s] by blast
    have c: "complete U i k err data w = Ok () (on_session i read_header w2)" by (simp add: eq w2(1))
    have "inv (on_session i read_header w2)"
      by (rule inv_upd [OF inv keep [OF c] w2(2)]) (use w2(4) registered_face in blast)
    then show ?thesis using c w2(2,3) by blast
  qed
qed

lemma connect_ok:
  assumes inv: "inv w" and room: "Suc (next_sid w) < 2 ^ 32"
  defines "key \<equiv> of_nat (Suc (next_sid w))"
  shows "inv (async_accept (with_new (connected (on_message key) (on_close key))
    ((print l (accept_done w))\<lparr>sessions := sessions w @ [(key, next_sid w)], last_id := key\<rparr>)))"
proof -
  let ?w = "(print l (accept_done w))\<lparr>sessions := sessions w @ [(key, next_sid w)], last_id := key\<rparr>"
  have "store_inv {} ?w" using inv by (simp add: inv_def store_inv_def)
  then have "store_inv {} (with_new (connected (on_message key) (on_close key)) ?w)" by (rule store_inv_with_new)
  then show ?thesis using inv room registered_connected
    by (auto simp: inv_def store_inv_def registry_ok_def numbered_Suc key_def less_Suc_eq simp del: of_nat_Suc)
qed

lemma refused_ok: "inv w \<Longrightarrow> inv (async_accept (accept_done w))"
  by (simp add: inv_def store_inv_def registry_ok_def del: of_nat_Suc)

lemma close_each_ok:
  "inv w \<Longrightarrow> set ss \<subseteq> {..<next_sid w} \<Longrightarrow>
   \<exists>w'. close_each U ss w = Ok () w' \<and> inv w' \<and> same_registry w w'
     \<and> (\<forall>i. \<not> socket_open (heap w i) \<or> i \<in> set ss \<longrightarrow> \<not> socket_open (heap w' i))"
proof (induction ss arbitrary: w)
  case Nil
  then show ?case by (simp add: same_registry_def)
next
  case (Cons s ss)
  have i: "s < next_sid w" using Cons.prems(2) by simp
  let ?w1 = "if socket_open (heap w s) then on_session s (closed_by no_error) (close_effect s w) else w"
  have c: "close U s w = Ok () ?w1"
    using close_intern_eq [OF closing_ok [OF Cons.prems(1) i]] by (simp add: close_def)
  have same: "same_registry w ?w1" using same_registry_close_effect [of w s] by (simp add: same_registry_def)
  have "store_inv {} ?w1"
    using close_keeps [of "{}" w s] Cons.prems(1) c by (simp add: inv_def keeps_def)
  then have "inv ?w1"
    by (rule inv_upd [OF Cons.prems(1) _ same]) (auto simp: registered_closed simp del: of_nat_Suc)
  moreover have "set ss \<subseteq> {..<next_sid ?w1}" using Cons.prems(2) same by (simp add: same_registry_def)
  ultimately obtain w' where w': "close_each U ss ?w1 = Ok () w'" "inv w'" "same_registry ?w1 w'"
    "\<forall>i. \<not> socket_open (heap ?w1 i) \<or> i \<in> set ss \<longrightarrow> \<not> socket_open (heap w' i)"
    using Cons.IH by blast
  then have "same_registry w w'" using same by (simp add: same_registry_def)
  then show ?case using c w' by auto
qed

lemma inv_broadcast:
  assumes inv: "inv w" and m: "valid_content m"
  shows "inv (broadcast {..<next_sid w} m w)"
proof (rule inv_upd [OF inv])
  have "send_each [0..<next_sid w] m w = Ok () (broadcast {..<next_sid w} m w)"
    using send_each_broadcast [OF m, of "[0..<next_sid w]" w] by (simp add: lessThan_atLeast0)
  then show "store_inv {} (broadcast {..<next_sid w} m w)"
    using send_each_keeps [of "{}" w "[0..<next_sid w]" m] inv by (simp add: inv_def keeps_def)
  show "same_registry w (broadcast {..<next_sid w} m w)" by (simp add: same_registry_def)
qed (auto simp: registered_def simp del: of_nat_Suc)

end

text \<open>A table of \<open>n\<close> sessions, all closed; and one in which every id is taken.\<close>

definition table_of :: "nat \<Rightarrow> ('m, 'c) registry_world" where
  "table_of n = quiet_table\<lparr>next_sid := n, sessions := numbered n, last_id := of_nat n\<rparr>"

definition full_table :: "('m, 'c) registry_world" where
  "full_table = table_of (2 ^ 32 - 1)"

lemma table_of_ok: "n < 2 ^ 32 \<Longrightarrow> registry_ok (table_of n)" "next_sid (table_of n) = n"
  by (simp_all add: table_of_def registry_ok_def)

lemma full_table_ok: "registry_ok full_table" "Suc (next_sid full_table) = 2 ^ 32"
  unfolding full_table_def by (rule table_of_ok) (simp_all add: table_of_ok(2))

end
