(* ===== verification/Chat_Server.thy ===== *)
theory Chat_Server
  imports Registry_Server
begin

text \<open>
  \<open>src/example/chat/chat_server.cpp\<close>: sessions are kept in a table; a message that parses as a
  \<open>chat_message\<close> is printed and sent to all sessions of the table, another one makes the server
  remove the sender. The parser generated from \<open>messages.proto\<close> is a parameter: it returns the user
  and the content, or nothing.
\<close>

section \<open>The server\<close>

datatype chat_message = Chat_message "32 word"
datatype chat_close = Chat_closed "32 word"

type_synonym chat_world = "(chat_message, chat_close) registry_world"
type_synonym chat_parser = "bytes \<Rightarrow> (bytes \<times> bytes) option"

definition chat_has_id :: "32 word \<Rightarrow> chat_world \<Rightarrow> bool" where
  "chat_has_id key w \<longleftrightarrow> map_of (sessions w) key \<noteq> None"

text \<open>A loop that never ends and does nothing else is undefined behaviour in C++.\<close>

definition chat_create_id :: "chat_world \<Rightarrow> (32 word, chat_world) res" where
  "chat_create_id w =
     (case next_free (\<lambda>key. chat_has_id key w) (last_id w) of
        None \<Rightarrow> Undef
      | Some key \<Rightarrow> Ok key (w\<lparr>last_id := key\<rparr>))"

definition chat_add :: "sid \<Rightarrow> chat_world \<Rightarrow> (32 word, chat_world) res" where
  "chat_add session w =
     bind_res (chat_create_id w) (\<lambda>key w1. Ok key (w1\<lparr>sessions := emplace key session (sessions w1)\<rparr>))"

text \<open>The guard as written: the branch that closes and erases is taken at \<open>end()\<close>.\<close>

definition chat_remove :: "32 word \<Rightarrow> chat_world \<Rightarrow> (unit, chat_world) res" where
  "chat_remove key w = (case map_of (sessions w) key of None \<Rightarrow> Undef | Some session \<Rightarrow> Ok () w)"

definition chat_get :: "32 word \<Rightarrow> chat_world \<Rightarrow> (sid, chat_world) res" where
  "chat_get key w =
     (case map_of (sessions w) key of
        None \<Rightarrow> Exc (Runtime_error ''session gone'') w
      | Some session \<Rightarrow> Ok session w)"

definition chat_send_all :: "order \<Rightarrow> bytes \<Rightarrow> chat_world \<Rightarrow> (unit, chat_world) res" where
  "chat_send_all order message w = send_each (map snd (traverse order (sessions w))) message w"

fun chat_on_message :: "order \<Rightarrow> chat_parser \<Rightarrow> chat_message \<Rightarrow> bytes \<Rightarrow> chat_world \<Rightarrow> (unit, chat_world) res" where
  "chat_on_message order parse (Chat_message key) message w =
     (case parse message of
        Some (user, content) \<Rightarrow>
          chat_send_all order message (print_bytes (user @ text_bytes '': '' @ content) w)
      | None \<Rightarrow> chat_remove key (print_error ''error: invalid message'' w))"

fun chat_on_close :: "chat_close \<Rightarrow> error_code \<Rightarrow> chat_world \<Rightarrow> (unit, chat_world) res" where
  "chat_on_close (Chat_closed key) err w = chat_remove key (print ''info: connection closed'' w)"

definition chat_user :: "order \<Rightarrow> chat_parser \<Rightarrow> (chat_message, chat_close, chat_world) user_code" where
  "chat_user order parse = \<lparr>run_message = chat_on_message order parse, run_close = chat_on_close\<rparr>"

definition chat_close_all :: "order \<Rightarrow> chat_parser \<Rightarrow> chat_world \<Rightarrow> (unit, chat_world) res" where
  "chat_close_all order parse w =
     close_each (chat_user order parse) (map snd (traverse order (sessions w))) w"

definition chat_do_accept :: "chat_world \<Rightarrow> chat_world" where
  "chat_do_accept w = async_accept w"

definition chat_connected :: "order \<Rightarrow> chat_parser \<Rightarrow> chat_world \<Rightarrow> (unit, chat_world) res" where
  "chat_connected order parse w =
     bind_res (create_session True (print ''info: new connection'' w)) (\<lambda>session w1.
       bind_res (chat_add session w1) (\<lambda>key w2.
         seq (set_onclose (chat_user order parse) session (User (Chat_closed key)) w2) (\<lambda>w3.
           call_on session (set_onmessage (User (Chat_message key))) w3)))"

definition chat_on_accept :: "order \<Rightarrow> chat_parser \<Rightarrow> error_code \<Rightarrow> chat_world \<Rightarrow> (unit, chat_world) res" where
  "chat_on_accept order parse err w =
     seq (if \<not> failed err then chat_connected order parse (accept_done w) else Ok () (accept_done w))
         (\<lambda>w1. Ok () (chat_do_accept w1))"

definition chat_server :: "'g os \<Rightarrow> string \<Rightarrow> chat_world \<Rightarrow> (unit, chat_world) res" where
  "chat_server os path w = seq (open_acceptor os path w) (\<lambda>w1. Ok () (chat_do_accept w1))"

fun chat_handle :: "order \<Rightarrow> chat_parser \<Rightarrow> server_event \<Rightarrow> chat_world \<Rightarrow> (unit, chat_world) res" where
  "chat_handle order parse Signal w = Ok () w"
| "chat_handle order parse (Accepted err) w = chat_on_accept order parse err w"
| "chat_handle order parse (Io i k err data) w = complete (chat_user order parse) i k err data w"

section \<open>The program\<close>

definition chat_server_usage :: "string list" where
  "chat_server_usage =
    [''chat-server, (C) 2024 Falk Werner'',
     ''Sample chat server'',
     '''',
     ''Usage:'',
     ''    chat-server -e <endpoint>'',
     '''',
     ''Options:'',
     ''    -e, --endpoint <endpoint> - Endpoint to listen (default: /tmp/com_example_chat.sock)'',
     ''    -h, --help                - Prints this message'',
     '''',
     ''Example:'',
     ''    chat-server -e /tmp/chat.sock'']"

definition chat_server_run ::
    "'g os \<Rightarrow> order \<Rightarrow> chat_parser \<Rightarrow> string \<Rightarrow> server_event list \<Rightarrow> chat_world \<Rightarrow> (bool, chat_world) res" where
  "chat_server_run os order parse path events w =
     seq (chat_server os path (unlink path w)) (\<lambda>w1.
       bind_res (serve (\<lambda>e. e = Signal) (chat_handle order parse) events
           (print (''info: listening on '' @ path) w1))
         (\<lambda>finished w2.
            if finished
            then seq (chat_close_all order parse w2) (\<lambda>w3. Ok True (print ''info: shutdown'' w3))
            else Ok False w2))"

definition chat_server_main ::
    "'g os \<Rightarrow> order \<Rightarrow> chat_parser \<Rightarrow> 'g \<Rightarrow> server_event list \<Rightarrow> chat_world
     \<Rightarrow> (int option, chat_world) res option" where
  "chat_server_main os order parse args events w =
     (case chat_server_application (os_getopt os) args of
        None \<Rightarrow> None
      | Some app \<Rightarrow> Some (
          let w0 = fold print_error (error_lines app) w in
          if \<not> show_help app then
            (case chat_server_run os order parse (endpoint app) events w0 of
               Ok finished w1 \<Rightarrow>
                 if finished then Ok (Some (exit_code app)) (unlink (endpoint app) w1) else Ok None w1
             | Exc e w1 \<Rightarrow>
                 if some_open w1 then Undef
                 else Ok (Some (exit_code app)) (unlink (endpoint app) (print_error (''error: '' @ what os e) w1))
             | Undef \<Rightarrow> Undef)
          else Ok (Some (exit_code app)) (fold print chat_server_usage w0)))"

section \<open>The contracts\<close>

lemma chat_remove_ids: "chat_remove key w = (if key \<in> ids w then Ok () w else Undef)"
  using map_of_ids [of w key] by (auto simp: chat_remove_def split: option.split)

interpretation chat_table: session_registry chat_add chat_remove chat_send_all
proof
  fix s and w :: chat_world
  have "(\<lambda>key. chat_has_id key w) = (\<lambda>key. key \<in> ids w)"
    by (simp only: chat_has_id_def map_of_ids)
  then show "chat_add s w = (case next_free (\<lambda>key. key \<in> ids w) (last_id w) of
      None \<Rightarrow> Undef | Some key \<Rightarrow> Ok key (w\<lparr>sessions := sessions w @ [(key, s)], last_id := key\<rparr>))"
    using next_free_result [of "\<lambda>key. key \<in> ids w" "last_id w"] map_of_ids [of w]
    by (auto simp: chat_add_def chat_create_id_def emplace_def split: option.split)
qed (simp_all add: chat_remove_ids chat_send_all_def)

fun chat_key :: "chat_close \<Rightarrow> 32 word" where
  "chat_key (Chat_closed key) = key"

lemma chat_message_run:
  assumes ok: "registry_ok w" and key: "key \<in> ids w" and p: "valid_content p"
  shows "run_message (chat_user order parse) (Chat_message key) p w =
    (case parse p of
       Some (user, content) \<Rightarrow> Ok () (broadcast {..<next_sid w} p (print_bytes (user @ text_bytes '': '' @ content) w))
     | None \<Rightarrow> Ok () (print_error ''error: invalid message'' w))"
  using key registry_ok_distinct [OF ok] registry_ok_sids [OF ok]
  by (auto simp: chat_user_def chat_remove_ids chat_table.send_all_broadcast [OF p] split: option.split)

interpretation chat: registry_server "chat_user order parse" chat_key Chat_closed Chat_message "\<lambda>_. ()"
  for order parse
proof
  fix c err and w :: chat_world
  show "run_close (chat_user order parse) c err w
      = (if chat_key c \<in> ids w then Ok () (print ''info: connection closed'' w) else Undef)"
    by (cases c) (simp add: chat_user_def chat_remove_ids)
next
  fix B m message and w :: chat_world
  assume inv: "store_inv B w"
  obtain key where m: "m = Chat_message key" by (cases m)
  have "res_all (keeps B w) (chat_send_all order message (print_bytes l w))" for l
    using res_keeps_trans [OF _ send_each_keeps [of B "print_bytes l w"], of w] keeps_heap [OF inv, of "print_bytes l w"]
    by (simp add: chat_send_all_def keeps_def)
  then show "res_all (keeps B w) (run_message (chat_user order parse) m message w)"
    using inv by (auto simp: chat_user_def m chat_remove_ids keeps_heap split: option.split)
next
  fix w :: chat_world and key p assume "registry_ok w" "key \<in> ids w" "valid_content p"
  from chat_message_run [OF this, of order parse]
  show "\<exists>w'. run_message (chat_user order parse) (Chat_message key) p w = Ok () w' \<and> same_registry w w'
      \<and> (\<forall>j. same_handlers (heap w j) (heap w' j)) \<and> () = ()"
    by (auto simp: same_registry_def same_handlers_def split: option.splits)
qed (simp_all add: print_on_session)

lemma chat_all_closed:
  assumes inv: "chat.inv w"
  shows "\<exists>w'. chat_close_all order parse w = Ok () w' \<and> \<not> some_open w'"
proof -
  have "set (map snd (traverse order (sessions w))) = {..<next_sid w}"
    using inv by (simp add: chat.inv_def registry_ok_def)
  then obtain w' where w': "chat_close_all order parse w = Ok () w'" "same_registry w w'"
    "\<forall>i < next_sid w. \<not> socket_open (heap w' i)"
    using chat.close_each_ok [OF inv, of "map snd (traverse order (sessions w))" order parse]
    by (auto simp: chat_close_all_def)
  then show ?thesis by (auto simp: some_open_def list_ex_iff same_registry_def)
qed

section \<open>The invariant of the program\<close>

text \<open>
  Which events can occur, with one bound: fewer than \<open>2 ^ 32 - 1\<close> connections were accepted before, as
  each of them keeps its id for ever and \<open>create_id\<close> never returns once all are taken.
\<close>

fun chat_guard :: "server_event \<Rightarrow> chat_world \<Rightarrow> bool" where
  "chat_guard (Accepted err) w = (occurs (Accepted err) w \<and> (failed err \<or> Suc (next_sid w) < 2 ^ 32))"
| "chat_guard e w = occurs e w"

lemma chat_add_new:
  assumes "registry_ok w" "Suc (next_sid w) < 2 ^ 32"
  shows "chat_add s w = Ok (of_nat (Suc (next_sid w)))
    (w\<lparr>sessions := sessions w @ [(of_nat (Suc (next_sid w)), s)], last_id := of_nat (Suc (next_sid w))\<rparr>)"
  by (simp add: chat_table.add_spec registry_ok_next [OF assms] del: of_nat_Suc)

lemma chat_connected_eq:
  fixes w :: chat_world
  assumes "registry_ok w" "Suc (next_sid w) < 2 ^ 32"
  defines "key \<equiv> of_nat (Suc (next_sid w))"
  shows "chat_connected order parse w = Ok () (with_new (connected (Chat_message key) (Chat_closed key))
    ((print ''info: new connection'' w)\<lparr>sessions := sessions w @ [(key, next_sid w)], last_id := key\<rparr>))"
proof -
  let ?w1 = "(print ''info: new connection'' w)\<lparr>heap := (heap w)(next_sid w := asio_session True),
      next_sid := Suc (next_sid w)\<rparr>"
  have "chat_add (next_sid w) ?w1 = Ok key
      (?w1\<lparr>sessions := sessions w @ [(key, next_sid w)], last_id := key\<rparr>)"
    using registry_ok_next [OF assms(1,2)] by (simp add: chat_table.add_spec ids_def key_def del: of_nat_Suc)
  then show ?thesis
    by (simp add: chat_connected_def create_session_def set_onclose_def Let_def call_on_def set_onmessage_def
        on_session_def server_defs with_new_def connected_def asio_session_def del: of_nat_Suc)
qed

lemma chat_accept_ok:
  fixes w :: chat_world
  assumes inv: "chat.inv w" and room: "failed err \<or> Suc (next_sid w) < 2 ^ 32"
  shows "\<exists>w'. chat_on_accept order parse err w = Ok () w' \<and> chat.inv w'"
proof (cases "failed err")
  case True
  then show ?thesis using chat.refused_ok [OF inv] by (simp add: chat_on_accept_def chat_do_accept_def)
next
  case False
  then have room: "Suc (next_sid w) < 2 ^ 32" using room by simp
  have "registry_ok (accept_done w)" using inv by (simp add: chat.inv_def registry_ok_def)
  from chat_connected_eq [OF this, of order parse] chat.connect_ok [OF inv room, of "''info: new connection''"] room
  show ?thesis using False by (simp add: chat_on_accept_def chat_do_accept_def del: of_nat_Suc)
qed

interpretation chat_program: server_program chat_guard "chat_handle order parse" "chat.inv" for order parse
proof
  show "\<exists>w'. chat_handle order parse e w = Ok () w' \<and> chat.inv w'" if "chat.inv w" "chat_guard e w" for w e
  proof (cases e)
    case (Io i k err data)
    then show ?thesis using that chat.io_ok [of w i k err data order parse] by auto
  qed (use that chat_accept_ok in auto)
qed

section \<open>Properties\<close>

text \<open>The world a started server waits in.\<close>

definition chat_listening :: "string \<Rightarrow> chat_world \<Rightarrow> chat_world" where
  "chat_listening path w = print (''info: listening on '' @ path)
     (chat_do_accept (w\<lparr>syscalls := syscalls w @ [Unlink path, Bind path]\<rparr>))"

lemma chat_listening_inv: "empty_table w \<Longrightarrow> chat.inv (chat_listening path w)"
  using store_inv_fresh [of w]
  by (simp add: chat_listening_def chat_do_accept_def chat.inv_def empty_table_def registry_ok_def numbered_def
      store_inv_def print_def print_bytes_def async_accept_def)

lemma served_chat_inv:
  "empty_table w0 \<Longrightarrow> served chat_guard (chat_handle order parse) (chat_listening path w0) w \<Longrightarrow> chat.inv w"
  by (blast intro: chat_program.served_inv chat_listening_inv)

lemma chat_message_event:
  assumes inv: "chat.inv w" and io: "io_occurs i k err data w" and ok: "\<not> failed err"
    and op: "fst (pending (heap w i) ! k) = Read_payload n" and live: "socket_open (heap w i)"
  shows "\<exists>s. same_face ((heap w i)\<lparr>delivered := delivered (heap w i) @ [data]\<rparr>) s
    \<and> write_queue s = write_queue (heap w i)
    \<and> complete (chat_user order parse) i k err data w = Ok () (on_session i read_header
        (case parse data of
           Some (user, content) \<Rightarrow> broadcast {..<next_sid w} data
             (print_bytes (user @ text_bytes '': '' @ content) (on_session i (\<lambda>_. s) w))
         | None \<Rightarrow> print_error ''error: invalid message'' (on_session i (\<lambda>_. s) w)))"
proof -
  have w: "store_inv {} w" "registry_ok w" using inv by (simp_all add: chat.inv_def)
  note a = message_arrives [OF w(1) io ok op chat.open_message [OF inv io live]]
  obtain s where s: "same_face ((heap w i)\<lparr>delivered := delivered (heap w i) @ [data]\<rparr>) s"
    "write_queue s = write_queue (heap w i)"
    "complete (chat_user order parse) i k err data w =
       seq (swallow (run_message (chat_user order parse) (Chat_message (of_nat (Suc i))) data (on_session i (\<lambda>_. s) w)))
         (\<lambda>w2. Ok () (on_session i read_header w2))"
    using a(2) by blast
  have "registry_ok (on_session i (\<lambda>_. s) w)" "of_nat (Suc i) \<in> ids (on_session i (\<lambda>_. s) w)"
    using w(2) io registry_ok_key [of w i] by (auto simp: registry_ok_def io_occurs_def simp del: of_nat_Suc)
  from chat_message_run [OF this a(1), of order parse] show ?thesis
    using s by (auto simp del: of_nat_Suc split: option.split)
qed

text \<open>A run: two clients connect and the second one has sent the header of a message of two bytes.\<close>

definition demo_parse :: chat_parser where
  "demo_parse m = (if m = [72, 105] then Some ([66], [72]) else None)"

definition chat_demo_events :: "server_event list" where
  "chat_demo_events = [Accepted no_error, Accepted no_error, Io 1 0 no_error [0, 0, 0, 2]]"

definition chat_demo :: chat_world where
  "chat_demo = the (state_of (handle_all (chat_handle rev demo_parse) chat_demo_events (chat_listening ''e'' quiet_table)))"

lemmas chat_demo_defs = chat_demo_def chat_demo_events_def chat_listening_def quiet_table_def
  chat_do_accept_def server_defs chat_on_accept_def chat_connected_def chat_user_def run_defs io_occurs_def
  chat_add_def chat_create_id_def chat_has_id_def next_free.simps [of _ 0] next_free.simps [of _ 1]
  next_free.simps [of _ 2] emplace_def

lemma chat_demo_run:
  "handle_all (chat_handle rev demo_parse) chat_demo_events (chat_listening ''e'' quiet_table) = Ok () chat_demo"
  "feasible (\<lambda>_. False) chat_guard (chat_handle rev demo_parse) chat_demo_events (chat_listening ''e'' quiet_table)"
  by (simp_all add: chat_demo_defs)

lemma chat_demo_fields:
  "next_sid chat_demo = 2" "pending (heap chat_demo (Suc 0)) = [(Read_payload 2, True)]"
  "socket_open (heap chat_demo 0)" "socket_open (heap chat_demo (Suc 0))"
  "accepted (heap chat_demo 0) = []"
  by (simp_all add: chat_demo_defs)

lemma served_chat_demo:
  "served chat_guard (chat_handle rev demo_parse) (chat_listening ''e'' quiet_table) chat_demo"
  by (rule handle_all_served [OF chat_demo_run(2,1)])

text \<open>
  C17: no event a started chat server can meet raises an exception or has undefined behaviour, in
  particular \<open>remove\<close> never dereferences \<open>end()\<close>, although its guard is inverted; afterwards exactly
  one accept is under way.
\<close>

theorem chat_server_survives:
  assumes "empty_table w0" and "served chat_guard (chat_handle order parse) (chat_listening path w0) w"
    and "chat_guard e w"
  shows "\<exists>w'. chat_handle order parse e w = Ok () w' \<and> accepts w' = 1"
  using chat_program.event_ok [OF served_chat_inv [OF assms(1,2)] assms(3), of order parse]
  unfolding chat.inv_def by blast

theorem chat_server_survives_witness:
  "\<exists>w'. chat_handle rev demo_parse (Io 1 0 bad_message []) chat_demo = Ok () w' \<and> accepts w' = 1"
  by (rule chat_server_survives [OF empty_quiet_table served_chat_demo])
    (simp add: io_occurs_def chat_demo_fields bad_message_def failed_def EBADMSG_def)

text \<open>
  C25: every session the chat server has ever accepted, open or closed, is in its table for ever, under
  an id that is not zero and not shared: the ids are 1, 2, 3 and so on.
\<close>

theorem chat_table_keeps_all:
  assumes "empty_table w0" and "served chat_guard (chat_handle order parse) (chat_listening path w0) w"
  shows "sessions w = map (\<lambda>i. (of_nat (Suc i), i)) [0..<next_sid w] \<and> distinct (map fst (sessions w))
    \<and> \<not> chat_has_id 0 w"
proof -
  have ok: "registry_ok w" using served_chat_inv [OF assms] by (simp add: chat.inv_def)
  then have n: "sessions w = numbered (next_sid w)" "next_sid w < 2 ^ 32" by (simp_all add: registry_ok_def)
  show ?thesis using n numbered_distinct [OF n(2)] numbered_nonzero [OF n(2)] map_of_ids [of w 0]
    by (simp add: numbered_def chat_has_id_def ids_def)
qed

theorem chat_table_keeps_all_witness:
  "sessions chat_demo = [(1, 0), (2, 1)] \<and> \<not> chat_has_id 0 chat_demo"
  using chat_table_keeps_all [OF empty_quiet_table served_chat_demo] by (simp add: chat_demo_fields upt_rec)

text \<open>
  C16: a message that parses is printed with its user and put into the queue of every session ever
  accepted, closed ones included, exactly once and whatever the order of the table is; their
  queues are never emptied.
\<close>

theorem chat_broadcast:
  assumes "empty_table w0" and "served chat_guard (chat_handle order parse) (chat_listening path w0) w"
    and "chat_guard (Io i k err data) w" and "\<not> failed err" and "fst (pending (heap w i) ! k) = Read_payload n"
    and "socket_open (heap w i)" and "parse data = Some (user, content)"
  shows "\<exists>w'. chat_handle order parse (Io i k err data) w = Ok () w'
    \<and> cout w' = cout w @ [user @ text_bytes '': '' @ content]
    \<and> (\<forall>j < next_sid w. accepted (heap w' j) = accepted (heap w j) @ [data]
        \<and> write_queue (heap w' j) = write_queue (heap w j) @ [\<lparr>header = header_of data, payload = data\<rparr>])"
proof -
  have inv: "chat.inv w" and io: "io_occurs i k err data w"
    using served_chat_inv [OF assms(1,2)] assms(3) by simp_all
  from chat_message_event [OF inv io assms(4-6), of order parse] show ?thesis
    by (auto simp: assms(7) same_face_def print_bytes_def on_session_def broadcast_def)
qed

theorem chat_broadcast_witness:
  "\<exists>w'. chat_handle rev demo_parse (Io 1 0 no_error [72, 105]) chat_demo = Ok () w'
    \<and> cout w' = cout chat_demo @ [[66, 58, 32, 72]] \<and> accepted (heap w' 0) = [[72, 105]]"
proof -
  have e: "chat_guard (Io 1 0 no_error [72, 105]) chat_demo"
    by (simp add: io_occurs_def chat_demo_fields)
  from chat_broadcast [OF empty_quiet_table served_chat_demo e, of 2 "[66]" "[72]"] show ?thesis
    by (auto simp: chat_demo_fields demo_parse_def text_bytes_def)
qed

text \<open>
  C26: a message that does not parse is reported on the error stream and has no other effect: the
  sender, which the code means to disconnect, stays open, keeps its handlers and is read from again.
\<close>

theorem chat_invalid_message_ignored:
  assumes "empty_table w0" and "served chat_guard (chat_handle order parse) (chat_listening path w0) w"
    and "chat_guard (Io i k err data) w" and "\<not> failed err" and "fst (pending (heap w i) ! k) = Read_payload n"
    and "socket_open (heap w i)" and "parse data = None"
  shows "\<exists>w'. chat_handle order parse (Io i k err data) w = Ok () w'
    \<and> cerr w' = cerr w @ [text_bytes ''error: invalid message''] \<and> sessions w' = sessions w
    \<and> socket_open (heap w' i) \<and> onmessage (heap w' i) = onmessage (heap w i)
    \<and> (Read_header, True) \<in> set (pending (heap w' i)) \<and> (\<forall>j. accepted (heap w' j) = accepted (heap w j))"
proof -
  have inv: "chat.inv w" and io: "io_occurs i k err data w"
    using served_chat_inv [OF assms(1,2)] assms(3) by simp_all
  from chat_message_event [OF inv io assms(4-6), of order parse] show ?thesis
    by (auto simp: assms(6,7) same_face_def print_error_def on_session_def read_header_def async_start_def)
qed

theorem chat_invalid_message_ignored_witness:
  "\<exists>w'. chat_handle rev demo_parse (Io 1 0 no_error [0, 0]) chat_demo = Ok () w'
    \<and> socket_open (heap w' 1) \<and> sessions w' = sessions chat_demo"
proof -
  have e: "chat_guard (Io 1 0 no_error [0, 0]) chat_demo"
    by (simp add: io_occurs_def chat_demo_fields)
  from chat_invalid_message_ignored [OF empty_quiet_table served_chat_demo e] show ?thesis
    by (auto simp: chat_demo_fields demo_parse_def)
qed

text \<open>
  C27: \<open>create_id\<close> returns if and only if some id other than zero is unused; what it returns is such an
  id, which it remembers, and the table is not changed.
\<close>

theorem chat_create_id_fresh:
  "(\<exists>key w'. chat_create_id w = Ok key w') = (\<exists>key. key \<noteq> 0 \<and> \<not> chat_has_id key w)
   \<and> (chat_create_id w = Ok key w' \<longrightarrow>
        key \<noteq> 0 \<and> \<not> chat_has_id key w \<and> w' = w\<lparr>last_id := key\<rparr>)"
  using next_free_ends_iff [of "\<lambda>key. chat_has_id key w" "last_id w"]
    next_free_result [of "\<lambda>key. chat_has_id key w" "last_id w"]
  by (auto simp: chat_create_id_def split: option.splits)

theorem chat_create_id_fresh_witness:
  "\<exists>key w'. chat_create_id quiet_table = Ok key w' \<and> key \<noteq> 0 \<and> w' = quiet_table\<lparr>last_id := key\<rparr>"
proof -
  have "(1 :: 32 word) \<noteq> 0 \<and> \<not> chat_has_id 1 quiet_table"
    by (simp add: chat_has_id_def quiet_table_def)
  then obtain key w' where "chat_create_id quiet_table = Ok key w'"
    using chat_create_id_fresh [of quiet_table 0 quiet_table] by blast
  with chat_create_id_fresh [of quiet_table key w'] show ?thesis by blast
qed

text \<open>
  C28: as no session is ever removed from the table, the connection after \<open>2 ^ 32 - 1\<close> others makes the
  search for an id run for ever, even if all those connections are closed.
\<close>

theorem chat_ids_exhausted:
  fixes w :: chat_world
  assumes "registry_ok w" and "Suc (next_sid w) = 2 ^ 32" and "\<not> failed err"
  shows "chat_on_accept order parse err w = Undef"
proof -
  let ?w1 = "(print ''info: new connection'' (accept_done w))\<lparr>heap := (heap w)(next_sid w := asio_session True),
      next_sid := Suc (next_sid w)\<rparr>"
  have "ids ?w1 = ids w" by (simp add: ids_def server_defs)
  moreover have "key \<in> ids w" if "key \<noteq> 0" for key
    using that registry_ok_full [OF assms(1,2)] by blast
  ultimately have "chat_add (next_sid w) ?w1 = Undef" by (intro chat_table.add_diverges) simp
  then show ?thesis
    by (simp add: chat_on_accept_def chat_connected_def create_session_def assms(3))
qed

theorem chat_ids_exhausted_witness:
  "chat_on_accept rev demo_parse no_error full_table = Undef"
  by (rule chat_ids_exhausted [OF full_table_ok]) simp

text \<open>
  C29: \<open>main\<close> of the chat server, once its options are parsed, on every path. If help is asked for or an
  option is invalid it prints the usage and does nothing else; the exit code is a failure exactly if an
  option was invalid, which is reported. Otherwise it removes the endpoint before it binds and after it
  ends. If binding fails it reports the error and still ends with the exit code of a success; otherwise
  it ends when a signal arrives, with every session closed, and not before.
\<close>

theorem chat_server_main_outcomes:
  assumes "chat_server_application (os_getopt os) args = Some app" and "empty_table w"
    and "\<not> show_help app \<longrightarrow> feasible (\<lambda>e. e = Signal) chat_guard (chat_handle order parse) events
      (chat_listening (endpoint app) (fold print_error (error_lines app) w))"
  shows "\<exists>r w'. chat_server_main os order parse args events w = Some (Ok r w')
    \<and> (if show_help app
       then r = Some (if error_lines app = [] then EXIT_SUCCESS else EXIT_FAILURE)
         \<and> error_lines app \<in> {[], [''error: invalid option'']}
         \<and> w' = w\<lparr>cout := cout w @ map text_bytes chat_server_usage, cerr := cerr w @ map text_bytes (error_lines app)\<rparr>
       else case os_bind os (endpoint app) of
         Some code \<Rightarrow> r = Some EXIT_SUCCESS \<and> last (cerr w') = text_bytes (''error: '' @ os_error_text os code)
           \<and> syscalls w' = syscalls w @ [Unlink (endpoint app), Bind (endpoint app), Unlink (endpoint app)]
       | None \<Rightarrow> r = (if Signal \<in> set events then Some EXIT_SUCCESS else None)
           \<and> (Signal \<in> set events \<longrightarrow> last (cout w') = text_bytes ''info: shutdown''
               \<and> last (syscalls w') = Unlink (endpoint app) \<and> \<not> some_open w'))"
proof (cases "show_help app")
  case True
  then show ?thesis using assms(1) chat_server_parsed [OF assms(1)]
    by (auto simp: chat_server_main_def Let_def usage_shown_eq usage_shown_def parsed_def EXIT_SUCCESS_def EXIT_FAILURE_def)
next
  case run: False
  let ?w0 = "fold print_error (error_lines app) w"
  have ec: "exit_code app = EXIT_SUCCESS" using chat_server_parsed [OF assms(1)] run by (simp add: parsed_def)
  have et: "empty_table ?w0" using assms(2) by (simp add: empty_table_def)
  obtain w2 where w2: "serve (\<lambda>e. e = Signal) (chat_handle order parse) events (chat_listening (endpoint app) ?w0)
      = Ok (Signal \<in> set events) w2" "chat.inv w2"
    using chat_program.serve_ok [OF chat_listening_inv [OF et] mp [OF assms(3) run]] by auto
  obtain w3 where w3: "chat_close_all order parse w2 = Ok () w3" "\<not> some_open w3"
    using chat_all_closed [OF w2(2)] by blast
  have "\<not> some_open ?w0" using assms(2) by (simp add: empty_table_def fresh_def no_sessions_def some_open_def)
  then show ?thesis using w2(1) w3 assms(1) run ec
    by (cases "os_bind os (endpoint app)"; cases "Signal \<in> set events")
      (simp_all add: chat_server_main_def Let_def chat_server_run_def chat_server_def open_acceptor_def
        unlink_def chat_listening_def print_def print_bytes_def print_error_def some_open_def)
qed

lemma chat_demo_application:
  "chat_server_application (os_getopt demo_os) [] = Some \<lparr>exit_code = 0, show_help = False,
     endpoint = ''/tmp/com_example_chat.sock'', error_lines = []\<rparr>"
  by (simp add: chat_server_application_def demo_options chat_server_switch_def EXIT_SUCCESS_def)

lemma chat_demo_invalid_option:
  "chat_server_application (os_getopt demo_os) [(63, '''')] = Some \<lparr>exit_code = 1, show_help = True,
     endpoint = ''/tmp/com_example_chat.sock'', error_lines = [''error: invalid option'']\<rparr>"
  by (subst chat_server_application_def, subst option_loop.simps)
    (simp add: demo_os_def chat_server_switch_def invalid_option_def EXIT_FAILURE_def)

lemma chat_demo_feasible: "feasible (\<lambda>e. e = Signal) chat_guard (chat_handle order parse) [Accepted no_error, Signal]
    (chat_listening path quiet_table)"
  using chat_program.event_ok [OF chat_listening_inv [OF empty_quiet_table], of "Accepted no_error"]
  by (auto simp: chat_listening_def chat_do_accept_def quiet_table_def print_def print_bytes_def
      async_accept_def split: res.split)

theorem chat_server_main_outcomes_witness:
  "(\<exists>r w'. chat_server_main demo_os rev demo_parse [] [Accepted no_error, Signal] quiet_table = Some (Ok r w')
      \<and> r = Some 0 \<and> \<not> some_open w')
   \<and> (\<exists>w'. chat_server_main demo_os rev demo_parse [(63, '''')] [] quiet_table = Some (Ok (Some 1) w')
      \<and> cout w' = map text_bytes chat_server_usage \<and> syscalls w' = [])"
proof
  show "\<exists>r w'. chat_server_main demo_os rev demo_parse [] [Accepted no_error, Signal] quiet_table = Some (Ok r w')
      \<and> r = Some 0 \<and> \<not> some_open w'"
    using chat_server_main_outcomes [where order = rev and parse = demo_parse, OF chat_demo_application empty_quiet_table,
        where events = "[Accepted no_error, Signal]"]
    by (simp add: chat_demo_feasible EXIT_SUCCESS_def del: feasible.simps) blast
  show "\<exists>w'. chat_server_main demo_os rev demo_parse [(63, '''')] [] quiet_table = Some (Ok (Some 1) w')
      \<and> cout w' = map text_bytes chat_server_usage \<and> syscalls w' = []"
    using chat_server_main_outcomes [where order = rev and parse = demo_parse, OF chat_demo_invalid_option empty_quiet_table,
        where events = "[]"]
    by (simp add: EXIT_FAILURE_def quiet_table_def)
qed

end
