(* ===== verification/Chat_Client.thy ===== *)
theory Chat_Client
  imports Client_Loop Chat_Server
begin

text \<open>
  \<open>src/example/chat/chat_client.cpp\<close>: lines read from a file descriptor are sent as chat messages, chat
  messages that arrive are printed. The protocol buffer code is a parameter: the parser, as for the
  server, and the serialiser of a message with a user and a content.
\<close>

section \<open>The console\<close>

datatype chat_client_message = Show_message
datatype chat_client_close = Stop_client

type_synonym chat_serializer = "bytes \<Rightarrow> bytes \<Rightarrow> bytes"

record chat_client_world = "(chat_client_message, chat_client_close) console_world" +
  shutdown_requested :: bool
  user_name :: bytes                \<comment> \<open>the members of \<open>console_reader\<close>\<close>
  buffer :: bytes
  console_session :: sid
  console_reads :: nat              \<comment> \<open>reads of a line started and not completed\<close>

definition newline :: byte where
  "newline = 10"

definition do_read :: "chat_client_world \<Rightarrow> chat_client_world" where
  "do_read w = w\<lparr>console_reads := Suc (console_reads w)\<rparr>"

definition console_start :: "bytes \<Rightarrow> sid \<Rightarrow> chat_client_world \<Rightarrow> chat_client_world" where
  "console_start user session w = do_read (w\<lparr>user_name := user, console_session := session\<rparr>)"

text \<open>
  \<open>std::getline\<close> on the buffer: it fails on an empty one; otherwise it takes the bytes up to the first
  newline and the newline itself out of the buffer.
\<close>

definition getline :: "bytes \<Rightarrow> (bytes \<times> bytes) option" where
  "getline b =
     (if b = [] then None
      else let line = takeWhile (\<lambda>x. x \<noteq> newline) b in Some (line, drop (Suc (length line)) b))"

text \<open>
  The completion of the read: \<open>data\<close> was appended to the buffer, and \<open>len\<close> bytes of it end with the first
  newline. \<open>consume\<close> drops them from what \<open>getline\<close> has left.
\<close>

definition on_input ::
    "chat_serializer \<Rightarrow> error_code \<Rightarrow> nat \<Rightarrow> bytes \<Rightarrow> chat_client_world \<Rightarrow> (unit, chat_client_world) res" where
  "on_input serialize err len data w =
     (let w0 = w\<lparr>buffer := buffer w @ data, console_reads := console_reads w - 1\<rparr> in
      if \<not> failed err then
        (case getline (buffer w0) of
           None \<Rightarrow> Ok () w0
         | Some (message, rest) \<Rightarrow>
             let w1 = w0\<lparr>buffer := drop len rest\<rparr> in
             seq (if length message > 0
                  then ignore (call_on (console_session w1) (send (serialize (user_name w1) message)) w1)
                  else Ok () w1)
               (\<lambda>w2. Ok () (do_read w2)))
      else Ok () w0)"

definition input_occurs :: "error_code \<Rightarrow> nat \<Rightarrow> bytes \<Rightarrow> chat_client_world \<Rightarrow> bool" where
  "input_occurs err len data w \<longleftrightarrow> 0 < console_reads w
     \<and> (failed err \<or> newline \<in> set (buffer w @ data)
          \<and> len = Suc (length (takeWhile (\<lambda>x. x \<noteq> newline) (buffer w @ data))))"

section \<open>The program\<close>

fun chat_client_on_message ::
    "chat_parser \<Rightarrow> chat_client_message \<Rightarrow> bytes \<Rightarrow> chat_client_world \<Rightarrow> (unit, chat_client_world) res" where
  "chat_client_on_message parse Show_message message w =
     (case parse message of
        Some (user, content) \<Rightarrow> Ok () (print_bytes (user @ text_bytes '': '' @ content) w)
      | None \<Rightarrow> Ok () (w\<lparr>shutdown_requested := True\<rparr>))"

fun chat_client_on_close :: "chat_client_close \<Rightarrow> error_code \<Rightarrow> chat_client_world \<Rightarrow> (unit, chat_client_world) res" where
  "chat_client_on_close Stop_client err w = Ok () (w\<lparr>shutdown_requested := True\<rparr>)"

definition chat_client_user ::
    "chat_parser \<Rightarrow> (chat_client_message, chat_client_close, chat_client_world) user_code" where
  "chat_client_user parse = \<lparr>run_message = chat_client_on_message parse, run_close = chat_client_on_close\<rparr>"

definition open_console :: "'g os \<Rightarrow> chat_client_world \<Rightarrow> (unit, chat_client_world) res" where
  "open_console os w =
     (case os_console os of
        Some code \<Rightarrow> Exc (System_error code) w
      | None \<Rightarrow> Ok () (w\<lparr>user_name := text_bytes ''unknown'', buffer := [], console_reads := 0\<rparr>))"

definition chat_client_start ::
    "'g os \<Rightarrow> chat_parser \<Rightarrow> string \<Rightarrow> bytes \<Rightarrow> chat_client_world \<Rightarrow> (unit, chat_client_world) res" where
  "chat_client_start os parse path user w =
     seq (open_console os w) (\<lambda>w0. seq (connect os path w0) (\<lambda>w1.
       bind_res (create_session True w1) (\<lambda>session w2.
         seq (set_onclose (chat_client_user parse) session (User Stop_client) w2) (\<lambda>w3.
           seq (call_on session (set_onmessage (User Show_message)) w3) (\<lambda>w4.
             Ok () (console_start user session w4))))))"

fun chat_client_handle ::
    "chat_parser \<Rightarrow> chat_serializer \<Rightarrow> client_event \<Rightarrow> chat_client_world \<Rightarrow> (unit, chat_client_world) res" where
  "chat_client_handle parse serialize (Net i k err data) w = complete (chat_client_user parse) i k err data w"
| "chat_client_handle parse serialize Interrupt w = Ok () (w\<lparr>shutdown_requested := True\<rparr>)"
| "chat_client_handle parse serialize (Input err len data) w = on_input serialize err len data w"

fun chat_client_occurs :: "client_event \<Rightarrow> chat_client_world \<Rightarrow> bool" where
  "chat_client_occurs (Net i k err data) w = io_occurs i k err data w"
| "chat_client_occurs Interrupt w = True"
| "chat_client_occurs (Input err len data) w = input_occurs err len data w"

definition chat_client_run ::
    "'g os \<Rightarrow> chat_parser \<Rightarrow> chat_serializer \<Rightarrow> user_app \<Rightarrow> client_event list \<Rightarrow> chat_client_world
     \<Rightarrow> (bool, chat_client_world) res" where
  "chat_client_run os parse serialize app events w =
     seq (chat_client_start os parse (endpoint app) (text_bytes (app_user app)) (w\<lparr>shutdown_requested := False\<rparr>))
         (run_until shutdown_requested (chat_client_handle parse serialize) events)"

definition chat_client_usage :: "string list" where
  "chat_client_usage =
    [''chat-client, (C) 2024 Falk Werner'',
     ''Sample chat client'',
     '''',
     ''Usage:'',
     ''    chat-client -e <endpoint> -u <user>'',
     '''',
     ''Options:'',
     ''    -e, --endpoint <endpoint> - Endpoint to listen (default: /tmp/com_example_chat.sock)'',
     ''    -n, --user <user>         - Set user name (default: Bob)'',
     ''    -h, --help                - Prints this message'',
     '''',
     ''Example:'',
     ''    chat-client -e /tmp/chat.sock -u John'']"

definition chat_client_main ::
    "'g os \<Rightarrow> chat_parser \<Rightarrow> chat_serializer \<Rightarrow> 'g \<Rightarrow> client_event list \<Rightarrow> chat_client_world
     \<Rightarrow> (int option, chat_client_world) res option" where
  "chat_client_main os parse serialize args events w =
     (case chat_client_application (os_getopt os) args of
        None \<Rightarrow> None
      | Some app \<Rightarrow> Some (
          let w0 = fold print_error (error_lines app) w in
          if \<not> show_help app then
            (case chat_client_run os parse serialize app events w0 of
               Ok ended w1 \<Rightarrow>
                 if ended then seq (leave (chat_client_user parse) w1) (Ok (Some (exit_code app))) else Ok None w1
             | Exc e w1 \<Rightarrow>
                 seq (leave (chat_client_user parse) w1) (\<lambda>w2.
                   Ok (Some (exit_code app)) (print_error (''error: '' @ what os e) w2))
             | Undef \<Rightarrow> Undef)
          else Ok (Some (exit_code app)) (fold print chat_client_usage w0)))"

section \<open>The contract and the invariant\<close>

interpretation chat_client:
  passive_user "chat_client_user parse" "\<lambda>_ _. True" "\<lambda>_ w. w\<lparr>shutdown_requested := True\<rparr>" for parse
proof
  fix c err and w :: chat_client_world
  show "run_close (chat_client_user parse) c err w = (if True then Ok () (w\<lparr>shutdown_requested := True\<rparr>) else Undef)"
    by (cases c) (simp add: chat_client_user_def)
next
  fix B m message and w :: chat_client_world
  assume "store_inv B w"
  then show "res_all (keeps B w) (run_message (chat_client_user parse) m message w)"
    by (cases m) (auto simp: chat_client_user_def keeps_heap split: option.split)
qed (simp_all add: on_session_def)

definition chat_client_inv :: "chat_client_world \<Rightarrow> bool" where
  "chat_client_inv w \<longleftrightarrow> one_session w
     \<and> (if socket_open (heap w 0) then onmessage (heap w 0) = User Show_message \<and> onclose (heap w 0) = User Stop_client
        else onmessage (heap w 0) = No_op \<and> onclose (heap w 0) = No_op \<and> shutdown_requested w)
     \<and> console_session w = 0"

lemma chat_client_fields [simp]:
  "shutdown_requested (on_session i f w) = shutdown_requested w"
  "shutdown_requested (print_bytes m w) = shutdown_requested w"
  "console_session (on_session i f w) = console_session w"
  "console_session (print_bytes m w) = console_session w"
  "heap (do_read w) = heap w" "next_sid (do_read w) = next_sid w"
  "console_session (do_read w) = console_session w" "shutdown_requested (do_read w) = shutdown_requested w"
  by (simp_all add: on_session_def print_bytes_def do_read_def)

lemma chat_client_inv_upd:
  assumes "chat_client_inv w" "one_session w'" "console_session w' = 0"
    and "same_face s (heap w' 0)" "socket_open s = socket_open (heap w 0)" "onmessage s = onmessage (heap w 0)"
      "onclose s = onclose (heap w 0)" "shutdown_requested w \<longrightarrow> shutdown_requested w'"
  shows "chat_client_inv w'"
  using assms by (auto simp: chat_client_inv_def same_face_def split: if_splits)

lemma chat_client_io:
  assumes inv: "chat_client_inv w" and io: "io_occurs i k err data w"
  shows "\<exists>w'. complete (chat_client_user parse) i k err data w = Ok () w' \<and> chat_client_inv w'"
proof -
  have w: "store_inv {} w" "next_sid w = 1" "i = 0" "console_session w = 0"
    using inv one_session_event [OF _ io] by (simp_all add: chat_client_inv_def one_session_def)
  have comp: "i < next_sid w" "k < length (pending (heap w i))" "io_result (pending (heap w i) ! k) err data"
    using io by (simp_all add: io_occurs_def)
  have keep: "one_session w'" if "complete (chat_client_user parse) i k err data w = Ok () w'" "next_sid w' = 1" for w'
    using chat_client.complete_keeps [OF w(1) comp, of parse] that by (simp add: keeps_def one_session_def)
  have ca: "chat_client.closing_allowed i w" by (simp add: chat_client.closing_allowed_def)
  show ?thesis
  proof (rule chat_client.complete_outcome [OF w(1) comp ca, of parse])
    fix s assume s: "complete (chat_client_user parse) i k err data w = Ok () (on_session i (\<lambda>_. s) w)"
      "same_face (heap w i) s"
    have "chat_client_inv (on_session i (\<lambda>_. s) w)"
      by (rule chat_client_inv_upd [OF inv keep [OF s(1)], of "heap w i"]) (use w s(2) in simp_all)
    then show ?thesis using s(1) by blast
  next
    fix s e assume s: "socket_open (heap w i)" "same_face (heap w i) s"
      "complete (chat_client_user parse) i k err data w
         = Ok () (on_session i (\<lambda>_. closed_by e s) (chat_client.close_effect i w))"
    have "chat_client.close_effect i w = w\<lparr>shutdown_requested := True\<rparr>"
      using inv s(1) w(3) by (simp add: chat_client.close_effect_def chat_client_inv_def)
    then show ?thesis using inv keep [OF s(3)] s w by (auto simp: chat_client_inv_def same_face_def)
  next
    fix m s p
    assume s: "onmessage (heap w i) = User m"
      "same_face ((heap w i)\<lparr>delivered := delivered (heap w i) @ [p]\<rparr>) s"
      and eq: "complete (chat_client_user parse) i k err data w
         = seq (swallow (run_message (chat_client_user parse) m p (on_session i (\<lambda>_. s) w)))
         (\<lambda>w2. Ok () (on_session i read_header w2))"
    let ?w1 = "on_session i (\<lambda>_. s) w"
    let ?w' = "on_session i read_header (case parse p of Some (u, c) \<Rightarrow> print_bytes (u @ text_bytes '': '' @ c) ?w1
      | None \<Rightarrow> ?w1\<lparr>shutdown_requested := True\<rparr>)"
    have c: "complete (chat_client_user parse) i k err data w = Ok () ?w'"
      using eq by (cases m) (auto simp: chat_client_user_def split: option.split)
    have "chat_client_inv ?w'"
      by (rule chat_client_inv_upd [OF inv keep [OF c], of "read_header s"])
        (use w s in \<open>auto simp: same_face_def split: option.splits\<close>)
    then show ?thesis using c by blast
  qed
qed

lemma call_send:
  "call_on i (send m) w = (if valid_content m then Ok (length (write_queue (heap w i)) + 1) (on_session i (sent m) w)
     else Exc (Runtime_error ''invalid message size'') w)"
proof (cases "valid_content m")
  case True
  then show ?thesis using call_on_Ok [where f = "send m" and i = i and w = w, OF send_valid [OF True]]
    by (simp add: on_session_def)
qed (simp add: call_on_def send_cases on_session_def)

lemma chat_client_inv_sent:
  assumes inv: "chat_client_inv w" and m: "valid_content m"
  shows "chat_client_inv (on_session 0 (sent m) w)"
proof -
  have s: "session_inv False (heap w 0)"
    using inv store_invD [of "{}" w 0] by (simp add: chat_client_inv_def one_session_def)
  have "store_inv {} (on_session 0 (sent m) w)"
    using inv session_inv_sent [OF s m] by (intro store_inv_upd [of "{}"]) (auto simp: chat_client_inv_def one_session_def)
  then show ?thesis using inv by (simp add: chat_client_inv_def one_session_def)
qed

lemma chat_client_inv_cong:
  "chat_client_inv w \<Longrightarrow> heap w' = heap w \<Longrightarrow> next_sid w' = next_sid w \<Longrightarrow> console_session w' = console_session w
   \<Longrightarrow> shutdown_requested w' = shutdown_requested w \<Longrightarrow> chat_client_inv w'"
  by (simp add: chat_client_inv_def one_session_def store_inv_def)

lemma on_input_eq:
  fixes w :: chat_client_world and len :: nat and serialize :: chat_serializer
  assumes "\<not> failed err" "buffer w @ data = line @ newline # rest" "newline \<notin> set line"
  defines "w1 \<equiv> w\<lparr>buffer := drop len rest, console_reads := console_reads w - 1\<rparr>"
    and "m \<equiv> serialize (user_name w) line"
  shows "on_input serialize err len data w =
    (if line = [] then Ok () (do_read w1)
     else if valid_content m then Ok () (do_read (on_session (console_session w) (sent m) w1))
     else Exc (Runtime_error ''invalid message size'') w1)"
proof -
  have t: "takeWhile (\<lambda>x. x \<noteq> newline) (buffer w @ data) = line"
    using assms(2,3) by (simp add: takeWhile_tail takeWhile_append2) (metis takeWhile_eq_all_conv)
  have "buffer w @ data \<noteq> []" using assms(2) by simp
  then have g: "getline (buffer w @ data) = Some (line, rest)"
    by (simp only: getline_def if_False Let_def t) (simp add: assms(2))
  show ?thesis
    by (cases w) (use assms(1) g in \<open>simp add: on_input_def Let_def w1_def m_def call_send ignore_def\<close>)
qed

lemma on_input_keeps:
  assumes inv: "chat_client_inv w" and g: "input_occurs err len data w"
  shows "on_input serialize err len data w \<noteq> Undef \<and> res_all chat_client_inv (on_input serialize err len data w)"
proof (cases "failed err")
  case True
  then show ?thesis using chat_client_inv_cong [OF inv] by (simp add: on_input_def Let_def)
next
  case False
  then have "newline \<in> set (buffer w @ data)" using g by (simp add: input_occurs_def)
  then obtain line rest where l: "buffer w @ data = line @ newline # rest" "newline \<notin> set line"
    using split_list_first by metis
  let ?w1 = "w\<lparr>buffer := drop len rest, console_reads := console_reads w - 1\<rparr>"
  have w1: "chat_client_inv ?w1" by (rule chat_client_inv_cong [OF inv]) simp_all
  have sent: "chat_client_inv (do_read (on_session 0 (sent m) ?w1))" if "valid_content m" for m
    by (rule chat_client_inv_cong [OF chat_client_inv_sent [OF w1 that]]) simp_all
  have "chat_client_inv (do_read ?w1)" by (rule chat_client_inv_cong [OF w1]) simp_all
  moreover have "console_session w = 0" using inv by (simp add: chat_client_inv_def)
  ultimately show ?thesis
    using w1 sent unfolding on_input_eq [OF False l, of serialize len] by simp
qed

interpretation chat_client_program: client_program shutdown_requested chat_client_occurs
  "chat_client_handle parse serialize" chat_client_inv for parse serialize
proof
  fix w e assume inv: "chat_client_inv w" and g: "chat_client_occurs e w"
  show "chat_client_handle parse serialize e w \<noteq> Undef
      \<and> res_all chat_client_inv (chat_client_handle parse serialize e w)"
  proof (cases e)
    case (Net i k err data)
    then show ?thesis using chat_client_io [OF inv, of i k err data parse] g by auto
  next
    case Interrupt
    then show ?thesis using inv by (simp add: chat_client_inv_def one_session_def store_inv_def split: if_splits)
  next
    case (Input err len data)
    then show ?thesis using on_input_keeps [OF inv] g by simp
  qed
qed

section \<open>Properties\<close>

definition chat_client_started :: "bytes \<Rightarrow> chat_client_world \<Rightarrow> chat_client_world" where
  "chat_client_started user w = console_start user 0 (with_new (connected Show_message Stop_client)
     (w\<lparr>shutdown_requested := False, user_name := text_bytes ''unknown'', buffer := [], console_reads := 0\<rparr>))"

lemma chat_client_start_eq:
  "next_sid w = 0 \<Longrightarrow> chat_client_start os parse path user (w\<lparr>shutdown_requested := False\<rparr>) =
     (case os_console os of
        Some code \<Rightarrow> Exc (System_error code) (w\<lparr>shutdown_requested := False\<rparr>)
      | None \<Rightarrow>
          let w0 = w\<lparr>shutdown_requested := False, user_name := text_bytes ''unknown'', buffer := [], console_reads := 0\<rparr> in
          case os_connect os path of
            Some code \<Rightarrow> Exc (System_error code) w0
          | None \<Rightarrow> Ok () (chat_client_started user w))"
  by (simp add: chat_client_start_def open_console_def connect_def create_session_def set_onclose_def Let_def
      call_on_def set_onmessage_def on_session_def chat_client_started_def with_new_def connected_def
      asio_session_def console_start_def do_read_def split: option.split)

lemma chat_client_started_inv:
  assumes "no_sessions w" shows "chat_client_inv (chat_client_started user w)"
proof -
  let ?w = "with_new (connected Show_message Stop_client)
     (w\<lparr>shutdown_requested := False, user_name := text_bytes ''unknown'', buffer := [], console_reads := 0\<rparr>)"
  have "store_inv {} ?w"
    using assms by (intro store_inv_new_session session_inv_connected) (simp add: no_sessions_def)
  then have "store_inv {} (chat_client_started user w)"
    unfolding chat_client_started_def
    by (rule iffD2 [OF store_inv_heap, rotated 2]) (simp_all add: console_start_def)
  then show ?thesis using assms
    by (simp add: chat_client_inv_def one_session_def chat_client_started_def console_start_def no_sessions_def)
qed

lemma chat_client_leave:
  assumes "chat_client_inv w"
  shows "\<exists>w'. leave (chat_client_user parse) w = Ok () w' \<and> \<not> socket_open (heap w' 0) \<and> cerr w' = cerr w"
proof -
  have "chat_client.closing_allowed 0 w" by (simp add: chat_client.closing_allowed_def)
  moreover have "cerr (chat_client.close_effect 0 w) = cerr w"
    by (simp add: chat_client.close_effect_def split: func.split)
  ultimately show ?thesis using assms
    by (simp add: leave_def destroy_session_def close_def chat_client.close_intern_eq
        chat_client_inv_def one_session_def on_session_def)
qed

text \<open>
  C37: a started chat client has no undefined behaviour. While it runs its session is open; it ends, with
  the exit code of its options and its session closed, after a signal, when the session is closed, on a
  message that does not parse, or with an error report when a line cannot be sent.
\<close>

theorem chat_client_main_outcomes:
  assumes "chat_client_application (os_getopt os) args = Some app" and "\<not> show_help app" and "no_sessions w"
    and "os_console os = None" and "os_connect os (endpoint app) = None"
    and "possible shutdown_requested chat_client_occurs (chat_client_handle parse serialize) events
      (chat_client_started (text_bytes (app_user app)) (fold print_error (error_lines app) w))"
  shows "\<exists>r w'. chat_client_main os parse serialize args events w = Some (Ok r w')
    \<and> (r = None \<longrightarrow> socket_open (heap w' 0) \<and> \<not> shutdown_requested w')
    \<and> (r \<noteq> None \<longrightarrow> r = Some (exit_code app) \<and> \<not> socket_open (heap w' 0))"
proof -
  let ?w0 = "fold print_error (error_lines app) w"
  let ?w1 = "chat_client_started (text_bytes (app_user app)) ?w0"
  let ?r = "run_until shutdown_requested (chat_client_handle parse serialize) events ?w1"
  have ns: "no_sessions ?w0" using assms(3) by (simp add: no_sessions_def)
  then have n: "next_sid ?w0 = 0" by (simp add: no_sessions_def)
  note keep = chat_client_program.run_until_keeps [OF chat_client_started_inv [OF ns] assms(6)]
  show ?thesis
  proof (cases ?r)
    case (Ok b w2)
    then have w2: "chat_client_inv w2" "b = shutdown_requested w2"
      using keep chat_client_program.run_until_Ok by auto
    obtain w3 where "leave (chat_client_user parse) w2 = Ok () w3" "\<not> socket_open (heap w3 0)"
      using chat_client_leave [OF w2(1)] by blast
    then show ?thesis using assms(1,2,4,5) Ok w2
      by (cases b) (auto simp: chat_client_main_def chat_client_run_def chat_client_start_eq [OF n] Let_def
          chat_client_inv_def split: if_splits)
  next
    case (Exc e w2)
    then have w2: "chat_client_inv w2" using keep by simp
    obtain w3 where "leave (chat_client_user parse) w2 = Ok () w3" "\<not> socket_open (heap w3 0)"
      using chat_client_leave [OF w2] by blast
    then show ?thesis using assms(1,2,4,5) Exc
      by (simp add: chat_client_main_def chat_client_run_def chat_client_start_eq [OF n] Let_def)
  qed (use keep in simp)
qed

definition quiet_chat_client :: chat_client_world where
  "quiet_chat_client = \<lparr>heap = (\<lambda>_. asio_session False), next_sid = 0, cout = [], cerr = [],
     shutdown_requested = False, user_name = [], buffer = [], console_session = 0, console_reads = 0\<rparr>"

lemma chat_client_demo_application:
  "chat_client_application (os_getopt demo_os) [] = Some \<lparr>exit_code = 0, show_help = False,
     endpoint = ''/tmp/com_example_chat.sock'', error_lines = [], app_user = ''Bob''\<rparr>"
  by (simp add: chat_client_application_def demo_options chat_client_switch_def EXIT_SUCCESS_def)

lemma no_sessions_quiet_chat_client: "no_sessions quiet_chat_client"
  by (simp add: no_sessions_def quiet_chat_client_def)

definition demo_serialize :: chat_serializer where
  "demo_serialize u c = u @ [58] @ c"

lemma chat_client_demo_possible:
  "possible shutdown_requested chat_client_occurs (chat_client_handle parse serialize) [Interrupt]
     (chat_client_started user quiet_chat_client)"
  by simp

theorem chat_client_main_outcomes_witness:
  "\<exists>r w'. chat_client_main demo_os demo_parse demo_serialize [] [Interrupt] quiet_chat_client = Some (Ok r w')
    \<and> (r \<noteq> None \<longrightarrow> r = Some 0)"
  using chat_client_main_outcomes [OF chat_client_demo_application _ no_sessions_quiet_chat_client,
      where events = "[Interrupt]" and parse = demo_parse and serialize = demo_serialize]
  by auto

text \<open>
  C38: a line that was read is sent as the message of the user, if it is not empty, and the next line is
  waited for; the buffer then lacks the line, its newline, and as many bytes again of what follows: of two
  lines of the same length that arrive together the second is lost.
\<close>

theorem chat_client_sends_line:
  assumes "\<not> failed err" and "buffer w @ data = line @ newline # rest" and "newline \<notin> set line"
    and "line \<noteq> []" and "valid_content (serialize (user_name w) line)"
  shows "\<exists>w'. on_input serialize err (Suc (length line)) data w = Ok () w'
    \<and> accepted (heap w' (console_session w)) = accepted (heap w (console_session w)) @ [serialize (user_name w) line]
    \<and> buffer w' = drop (Suc (length line)) rest \<and> console_reads w' = Suc (console_reads w - 1)"
  using on_input_eq [OF assms(1-3), where len = "Suc (length line)" and serialize = serialize] assms(4,5)
  by (simp add: do_read_def on_session_def)

lemma quiet_console:
  "buffer quiet_chat_client = []" "console_session quiet_chat_client = 0" "user_name quiet_chat_client = []"
  "accepted (heap quiet_chat_client 0) = []"
  by (simp_all add: quiet_chat_client_def asio_session_def)

theorem chat_client_sends_line_witness:
  "\<exists>w'. on_input demo_serialize no_error (Suc (Suc 0)) [104, newline, 105, newline] quiet_chat_client = Ok () w'
    \<and> accepted (heap w' 0) = [[58, 104]] \<and> buffer w' = []"
  using chat_client_sends_line [where err = no_error and w = quiet_chat_client and serialize = demo_serialize
      and data = "[104, newline, 105, newline]" and line = "[104]" and rest = "[105, newline]"]
  by (simp add: quiet_console newline_def demo_serialize_def valid_content_def) blast

text \<open>
  a line typed in one client reaches the screens of all: the client queues the message of the line, the
  chat server, given this message, queues it for every session it has and prints it, and a client that is
  given it prints the user and the line; provided the protocol buffer code parses what it serialises.
\<close>

theorem chat_line_travels:
  assumes "\<not> failed err" and "buffer a @ data = line @ newline # rest" and "newline \<notin> set line" and "line \<noteq> []"
    and "valid_content (serialize (user_name a) line)"
    and "parse (serialize (user_name a) line) = Some (user_name a, line)"
    and "registry_ok s" and "key \<in> ids s"
  shows "\<exists>a' s'. on_input serialize err (Suc (length line)) data a = Ok () a'
    \<and> accepted (heap a' (console_session a)) = accepted (heap a (console_session a)) @ [serialize (user_name a) line]
    \<and> chat_on_message order parse (Chat_message key) (serialize (user_name a) line) s = Ok () s'
    \<and> cout s' = cout s @ [user_name a @ text_bytes '': '' @ line]
    \<and> (\<forall>j < next_sid s. accepted (heap s' j) = accepted (heap s j) @ [serialize (user_name a) line])
    \<and> chat_client_on_message parse Show_message (serialize (user_name a) line) b
        = Ok () (print_bytes (user_name a @ text_bytes '': '' @ line) b)"
proof -
  let ?m = "serialize (user_name a) line"
  obtain a' where a': "on_input serialize err (Suc (length line)) data a = Ok () a'"
    "accepted (heap a' (console_session a)) = accepted (heap a (console_session a)) @ [?m]"
    using on_input_eq [OF assms(1-3), where len = "Suc (length line)" and serialize = serialize] assms(4,5)
    by (simp add: do_read_def on_session_def)
  let ?s' = "broadcast {..<next_sid s} ?m (print_bytes (user_name a @ text_bytes '': '' @ line) s)"
  have "chat_on_message order parse (Chat_message key) ?m s = Ok () ?s'"
    using chat_message_run [OF assms(7,8,5), of order parse] assms(6) by (simp add: chat_user_def)
  moreover have "cout ?s' = cout s @ [user_name a @ text_bytes '': '' @ line]"
    by (simp add: broadcast_def print_bytes_def)
  ultimately show ?thesis using a' assms(6) by auto
qed

theorem chat_line_travels_witness:
  "\<exists>a' s'. on_input (\<lambda>u c. [72, 105]) no_error (Suc (Suc 0)) [72, newline] (quiet_chat_client\<lparr>user_name := [66]\<rparr>) = Ok () a'
    \<and> accepted (heap a' 0) = [[72, 105]]
    \<and> chat_on_message rev demo_parse (Chat_message 1) [72, 105] (table_of 1) = Ok () s'"
proof -
  have "(1 :: 32 word) \<in> ids (table_of 1)"
    using registry_ok_key [OF table_of_ok(1), of 1 0] by (simp add: table_of_ok(2))
  then show ?thesis
    using chat_line_travels [where err = no_error and a = "quiet_chat_client\<lparr>user_name := [66]\<rparr>"
        and data = "[72, newline]" and line = "[72]" and rest = "[]" and serialize = "\<lambda>u c. [72, 105]"
        and parse = demo_parse and s = "table_of 1" and key = 1 and order = rev] table_of_ok(1) [of 1]
    by (simp add: quiet_chat_client_def asio_session_def newline_def demo_parse_def valid_content_def
        del: chat_on_message.simps) blast
qed

end
