(* ===== verification/Chat_System.thy ===== *)
theory Chat_System
  imports Chat_Client
begin

text \<open>
  The chat server and one of its clients together, two programs joined by the byte stream from the
  server's session to the client's: what the server queues for a session it has printed before, and
  what the client prints is what the server has queued.
\<close>

section \<open>The server: what is queued was printed\<close>

definition chat_line :: "chat_parser \<Rightarrow> bytes \<Rightarrow> bytes" where
  "chat_line parse m = (case parse m of Some (user, content) \<Rightarrow> user @ text_bytes '': '' @ content | None \<Rightarrow> [])"

definition chat_log :: "chat_parser \<Rightarrow> chat_world \<Rightarrow> bool" where
  "chat_log parse w \<longleftrightarrow> (\<forall>i < next_sid w. (\<forall>m \<in> set (accepted (heap w i)). parse m \<noteq> None)
     \<and> subseq (map (chat_line parse) (accepted (heap w i))) (cout w))"

lemma chat_log_quiet:
  assumes "chat_log parse w" "next_sid w' = next_sid w" "\<And>j. accepted (heap w' j) = accepted (heap w j)"
    and "cout w' = cout w @ ls"
  shows "chat_log parse w'"
  using assms subseq_rev_drop_many by (auto simp: chat_log_def)

lemma chat_log_broadcast:
  assumes "chat_log parse w" "parse p = Some (user, content)" "cout w' = cout w @ [user @ text_bytes '': '' @ content]"
    and "next_sid w' = next_sid w" "\<And>j. j < next_sid w \<Longrightarrow> accepted (heap w' j) = accepted (heap w j) @ [p]"
  shows "chat_log parse w'"
  using assms by (auto simp: chat_log_def chat_line_def intro!: list_emb_append_mono)

lemma chat_io_log:
  assumes inv: "chat.inv w" "chat_log parse w" and io: "io_occurs i k err data w"
    and c: "complete (chat_user order parse) i k err data w = Ok () w'"
  shows "chat_log parse w'"
proof -
  have w: "store_inv {} w" "registry_ok w" using inv(1) by (simp_all add: chat.inv_def)
  have comp: "i < next_sid w" "k < length (pending (heap w i))" "io_result (pending (heap w i) ! k) err data"
    using io by (simp_all add: io_occurs_def)
  show ?thesis
  proof (rule chat.complete_outcome [OF w(1) comp chat.closing_ok [OF inv(1) comp(1)], of order parse])
    fix s assume "complete (chat_user order parse) i k err data w = Ok () (on_session i (\<lambda>_. s) w)"
      "same_face (heap w i) s"
    then show ?thesis using c by (intro chat_log_quiet [OF inv(2), of _ "[]"]) (auto simp: same_face_def)
  next
    fix s e assume "same_face (heap w i) s"
      "complete (chat_user order parse) i k err data w = Ok () (on_session i (\<lambda>_. closed_by e s) (chat.close_effect i w))"
    then show ?thesis using c
      by (intro chat_log_quiet [OF inv(2), of _ "case onclose (heap w i) of User _ \<Rightarrow> [text_bytes ''info: connection closed''] | _ \<Rightarrow> []"])
        (auto simp: same_face_def chat.close_effect_def print_def split: func.split)
  next
    fix m s p
    assume s: "onmessage (heap w i) = User m" "valid_content p"
      "same_face ((heap w i)\<lparr>delivered := delivered (heap w i) @ [p]\<rparr>) s"
      and eq: "complete (chat_user order parse) i k err data w
        = seq (swallow (run_message (chat_user order parse) m p (on_session i (\<lambda>_. s) w)))
         (\<lambda>w2. Ok () (on_session i read_header w2))"
    let ?w1 = "on_session i (\<lambda>_. s) w"
    have m: "m = Chat_message (of_nat (Suc i))"
      using s(1) inv(1) comp(1) by (auto simp: chat.inv_def chat.registered_def simp del: of_nat_Suc split: if_splits)
    have ok: "registry_ok ?w1" "of_nat (Suc i) \<in> ids ?w1"
      using w(2) registry_ok_key [OF w(2) comp(1)] by (auto simp: registry_ok_def ids_def simp del: of_nat_Suc)
    note run = chat_message_run [OF ok s(2), of order parse]
    show ?thesis
    proof (cases "parse p")
      case None
      then have "w' = on_session i read_header (print_error ''error: invalid message'' ?w1)"
        using c eq run by (simp add: m del: of_nat_Suc)
      then show ?thesis using s(3)
        by (intro chat_log_quiet [OF inv(2), of _ "[]"]) (auto simp: same_face_def print_error_def)
    next
      case (Some uc)
      obtain user content where uc: "parse p = Some (user, content)" using Some by (cases uc) simp
      then have "w' = on_session i read_header (broadcast {..<next_sid w} p
          (print_bytes (user @ text_bytes '': '' @ content) ?w1))"
        using c eq run by (simp add: m del: of_nat_Suc)
      then show ?thesis using s(3)
        by (intro chat_log_broadcast [OF inv(2) uc]) (auto simp: same_face_def broadcast_def print_bytes_def on_session_def)
    qed
  qed
qed

lemma chat_accept_log:
  assumes inv: "chat.inv w" "chat_log parse w" and g: "chat_guard (Accepted err) w"
    and c: "chat_on_accept order parse err w = Ok () w'"
  shows "chat_log parse w'"
proof (cases "failed err")
  case True
  then have "w' = async_accept (accept_done w)" using c by (simp add: chat_on_accept_def chat_do_accept_def)
  then show ?thesis by (intro chat_log_quiet [OF inv(2), of _ "[]"]) (simp_all add: async_accept_def accept_done_def)
next
  case False
  let ?v = "accept_done w" and ?key = "of_nat (Suc (next_sid w)) :: 32 word"
  have "registry_ok ?v" "Suc (next_sid ?v) < 2 ^ 32" using inv(1) g False by (simp_all add: chat.inv_def registry_ok_def)
  from chat_connected_eq [OF this, of order parse] have
    w': "w' = async_accept (with_new (connected (Chat_message ?key) (Chat_closed ?key))
      ((print ''info: new connection'' ?v)\<lparr>sessions := sessions w @ [(?key, next_sid w)], last_id := ?key\<rparr>))"
    using c False by (simp add: chat_on_accept_def chat_do_accept_def del: of_nat_Suc)
  show ?thesis using inv(2) subseq_rev_drop_many unfolding w'
    by (auto simp: chat_log_def server_defs with_new_def connected_def asio_session_def read_header_def
        async_start_def less_Suc_eq simp del: of_nat_Suc)
qed

interpretation chat_log_program:
  server_program chat_guard "chat_handle order parse" "\<lambda>w. chat.inv w \<and> chat_log parse w" for order parse
proof
  fix w e assume inv: "chat.inv w \<and> chat_log parse w" and g: "chat_guard e w"
  obtain w' where w': "chat_handle order parse e w = Ok () w'" "chat.inv w'"
    using chat_program.event_ok [of w e order parse] inv g by blast
  have "chat_log parse w'"
  proof (cases e)
    case (Io i k err data)
    then show ?thesis using chat_io_log [of w parse i k err data order w'] inv g w'(1) by simp
  next
    case (Accepted err)
    then show ?thesis using chat_accept_log [of w parse err order w'] inv g w'(1) by simp
  qed (use inv w'(1) in simp)
  then show "\<exists>w'. chat_handle order parse e w = Ok () w' \<and> chat.inv w' \<and> chat_log parse w'" using w' by blast
qed

lemma served_chat_log:
  assumes "empty_table w0" "served chat_guard (chat_handle order parse) (chat_listening path w0) w"
  shows "chat.inv w" "chat_log parse w"
proof -
  have "chat_log parse (chat_listening path w0)"
    using assms(1) by (simp add: chat_log_def chat_listening_def chat_do_accept_def empty_table_def fresh_def
        no_sessions_def print_def print_bytes_def async_accept_def)
  then have "chat.inv w \<and> chat_log parse w"
    using chat_log_program.served_inv [OF assms(2)] chat_listening_inv [OF assms(1)] by blast
  then show "chat.inv w" "chat_log parse w" by simp_all
qed

section \<open>The client: what is given is printed\<close>

definition chat_screen :: "chat_parser \<Rightarrow> bytes list \<Rightarrow> chat_client_world \<Rightarrow> bool" where
  "chat_screen parse out w \<longleftrightarrow> chat_client_inv w
     \<and> cout w = out @ map (chat_line parse) (filter (\<lambda>m. parse m \<noteq> None) (delivered (heap w 0)))"

lemma chat_screen_cong:
  "chat_screen parse out w \<Longrightarrow> chat_client_inv w' \<Longrightarrow> cout w' = cout w
   \<Longrightarrow> delivered (heap w' 0) = delivered (heap w 0) \<Longrightarrow> chat_screen parse out w'"
  by (simp add: chat_screen_def)

lemma chat_screen_io:
  assumes scr: "chat_screen parse out w" and io: "io_occurs i k err data w"
    and c: "complete (chat_client_user parse) i k err data w = Ok () w'" and inv': "chat_client_inv w'"
  shows "chat_screen parse out w'"
proof -
  have inv: "chat_client_inv w" using scr by (simp add: chat_screen_def)
  have w: "store_inv {} w" "i = 0"
    using inv one_session_event [OF _ io] by (simp_all add: chat_client_inv_def one_session_def)
  have comp: "i < next_sid w" "k < length (pending (heap w i))" "io_result (pending (heap w i) ! k) err data"
    using io by (simp_all add: io_occurs_def)
  have ca: "chat_client.closing_allowed i w" by (simp add: chat_client.closing_allowed_def)
  show ?thesis
  proof (rule chat_client.complete_outcome [OF w(1) comp ca, of parse])
    fix s assume "complete (chat_client_user parse) i k err data w = Ok () (on_session i (\<lambda>_. s) w)"
      "same_face (heap w i) s"
    then show ?thesis using c w(2) by (intro chat_screen_cong [OF scr inv']) (auto simp: same_face_def)
  next
    fix s e assume "same_face (heap w i) s"
      "complete (chat_client_user parse) i k err data w
        = Ok () (on_session i (\<lambda>_. closed_by e s) (chat_client.close_effect i w))"
    then show ?thesis using c w(2)
      by (intro chat_screen_cong [OF scr inv'])
        (auto simp: same_face_def chat_client.close_effect_def split: func.split)
  next
    fix m s p
    assume s: "same_face ((heap w i)\<lparr>delivered := delivered (heap w i) @ [p]\<rparr>) s"
      and eq: "complete (chat_client_user parse) i k err data w
        = seq (swallow (run_message (chat_client_user parse) m p (on_session i (\<lambda>_. s) w)))
         (\<lambda>w2. Ok () (on_session i read_header w2))"
    let ?w1 = "on_session i (\<lambda>_. s) w"
    have "w' = on_session i read_header (case parse p of Some (u, c) \<Rightarrow> print_bytes (u @ text_bytes '': '' @ c) ?w1
      | None \<Rightarrow> ?w1\<lparr>shutdown_requested := True\<rparr>)"
      using c eq by (cases m) (auto simp: chat_client_user_def split: option.splits)
    then show ?thesis using scr inv' s w(2)
      by (auto simp: chat_screen_def same_face_def chat_line_def split: option.splits)
  qed
qed

lemma on_input_screen:
  "res_all (\<lambda>w'. cout w' = cout w \<and> delivered (heap w' 0) = delivered (heap w 0)) (on_input serialize err len data w)"
  by (auto simp: on_input_def Let_def call_send ignore_def do_read_def on_session_def split: option.split)

interpretation chat_screen_program: client_program shutdown_requested chat_client_occurs
  "chat_client_handle parse serialize" "chat_screen parse out" for parse serialize out
proof
  fix w e assume scr: "chat_screen parse out w" and "\<not> shutdown_requested w" and g: "chat_client_occurs e w"
  then have keep: "chat_client_handle parse serialize e w \<noteq> Undef"
      "res_all chat_client_inv (chat_client_handle parse serialize e w)"
    using chat_client_program.event_keeps [of w e parse serialize] by (simp_all add: chat_screen_def)
  have "res_all (chat_screen parse out) (chat_client_handle parse serialize e w)"
  proof (cases e)
    case (Net i k err data)
    obtain w' where w': "complete (chat_client_user parse) i k err data w = Ok () w'" "chat_client_inv w'"
      using chat_client_io [of w i k err data parse] scr g Net by (auto simp: chat_screen_def)
    then show ?thesis using chat_screen_io [OF scr _ w'] g Net by simp
  next
    case Interrupt
    then show ?thesis using keep(2) chat_screen_cong [OF scr] by simp
  next
    case (Input err len data)
    then show ?thesis using keep(2) on_input_screen [of w serialize err len data] chat_screen_cong [OF scr]
      by (cases "on_input serialize err len data w") simp_all
  qed
  then show "chat_client_handle parse serialize e w \<noteq> Undef
      \<and> res_all (chat_screen parse out) (chat_client_handle parse serialize e w)" using keep(1) by blast
qed

lemma chat_client_run_screen:
  assumes "no_sessions cw"
    and "possible shutdown_requested chat_client_occurs (chat_client_handle parse serialize) es (chat_client_started user cw)"
    and "state_of (run_until shutdown_requested (chat_client_handle parse serialize) es (chat_client_started user cw)) = Some w"
  shows "chat_screen parse (cout cw) w"
proof -
  have "chat_screen parse (cout cw) (chat_client_started user cw)"
    using chat_client_started_inv [OF assms(1)]
    by (simp add: chat_screen_def chat_client_started_def console_start_def do_read_def with_new_def connected_def
        asio_session_def read_header_def async_start_def assms(1) [unfolded no_sessions_def])
  from chat_screen_program.run_until_keeps [OF this assms(2)] assms(3) show ?thesis
    by (simp add: res_all_state_of)
qed

section \<open>Both together\<close>

text \<open>A run: two clients connect, one says hello, and reads what the server sends back.\<close>

definition chat_system_server :: chat_world where
  "chat_system_server = the (state_of (handle_all (chat_handle rev demo_parse)
     [Io 1 0 no_error [72, 105], Io 1 0 no_error [0, 0, 0, 2], Io 1 1 no_error [72, 105]] chat_demo))"

definition chat_system_events :: "client_event list" where
  "chat_system_events = [Net 0 0 no_error [0, 0, 0, 2], Net 0 0 no_error [72, 105]]"

definition chat_system_client :: chat_client_world where
  "chat_system_client = the (state_of (run_until shutdown_requested (chat_client_handle demo_parse demo_serialize)
     chat_system_events (chat_client_started [66] quiet_chat_client)))"

lemmas chat_system_defs = chat_system_client_def chat_system_events_def quiet_chat_client_def chat_client_started_def
  console_start_def do_read_def with_new_def connected_def server_defs run_defs io_occurs_def chat_client_user_def demo_parse_def text_bytes_def

lemma chat_system_server_run:
  "handle_all (chat_handle rev demo_parse)
     [Io 1 0 no_error [72, 105], Io 1 0 no_error [0, 0, 0, 2], Io 1 1 no_error [72, 105]] chat_demo = Ok () chat_system_server"
  "feasible (\<lambda>_. False) chat_guard (chat_handle rev demo_parse)
     [Io 1 0 no_error [72, 105], Io 1 0 no_error [0, 0, 0, 2], Io 1 1 no_error [72, 105]] chat_demo"
  "next_sid chat_system_server = 2" "wire_out (heap chat_system_server (Suc 0)) = [0, 0, 0, 2, 72, 105]"
  by (simp_all add: chat_system_server_def chat_demo_defs demo_parse_def text_bytes_def chat_send_all_def traverse_def)

lemma chat_system_client_run:
  "state_of (run_until shutdown_requested (chat_client_handle demo_parse demo_serialize)
     chat_system_events (chat_client_started [66] quiet_chat_client)) = Some chat_system_client"
  "possible shutdown_requested chat_client_occurs (chat_client_handle demo_parse demo_serialize)
     chat_system_events (chat_client_started [66] quiet_chat_client)"
  "wire_in (heap chat_system_client 0) = [0, 0, 0, 2, 72, 105]" "cout chat_system_client = [[66, 58, 32, 72]]"
  by (simp_all add: chat_system_defs)

text \<open>
  C3: a chat client connected to the chat server prints, in order, only lines the server has printed, whatever
  the other clients do: it is given a prefix of the messages the server queued for its session, all of them
  parse, so that none makes it end, and it prints the user and the content of each.
\<close>

theorem chat_system:
  assumes client: "no_sessions cw"
      "possible shutdown_requested chat_client_occurs (chat_client_handle parse serialize) es (chat_client_started user cw)"
      "state_of (run_until shutdown_requested (chat_client_handle parse serialize) es (chat_client_started user cw)) = Some wc"
    and server: "empty_table sw" "served chat_guard (chat_handle order parse) (chat_listening path sw) ws" "i < next_sid ws"
    and wire: "prefix (wire_in (heap wc 0)) (wire_out (heap ws i))"
  shows "prefix (delivered (heap wc 0)) (accepted (heap ws i)) \<and> (\<forall>m \<in> set (delivered (heap wc 0)). parse m \<noteq> None)
    \<and> cout wc = cout cw @ map (chat_line parse) (delivered (heap wc 0))
    \<and> subseq (map (chat_line parse) (delivered (heap wc 0))) (cout ws)"
proof -
  have c: "chat_screen parse (cout cw) wc" by (rule chat_client_run_screen [OF client])
  note s = served_chat_log [OF server(1,2)]
  have inv: "session_inv False (heap wc 0)" "session_inv False (heap ws i)"
    using c s store_invD [of "{}" wc 0] store_invD [of "{}" ws i]
    by (simp_all add: chat_screen_def chat_client_inv_def one_session_def chat.inv_def)
  have p: "prefix (delivered (heap wc 0)) (accepted (heap ws i))"
    using end_to_end_sessions [OF inv wire] session_inv_D(4) [OF inv(1)]
    by (auto simp: delivery_inv_def intro: prefix_order.trans)
  then have ok: "\<forall>m \<in> set (delivered (heap wc 0)). parse m \<noteq> None"
    using s(2) server(3) set_mono_prefix [OF p] by (auto simp: chat_log_def)
  have "subseq (map (chat_line parse) (delivered (heap wc 0))) (map (chat_line parse) (accepted (heap ws i)))"
    using p by (intro prefix_imp_subseq map_mono_prefix)
  then have "subseq (map (chat_line parse) (delivered (heap wc 0))) (cout ws)"
    using s(2) server(3) subseq_order.trans unfolding chat_log_def by blast
  moreover have "filter (\<lambda>m. parse m \<noteq> None) (delivered (heap wc 0)) = delivered (heap wc 0)"
    using ok by (simp add: filter_id_conv)
  ultimately show ?thesis using p ok c by (simp add: chat_screen_def)
qed

theorem chat_system_witness:
  "cout chat_system_client = [[66, 58, 32, 72]] \<and> subseq [[66, 58, 32, 72]] (cout chat_system_server)"
proof -
  have "served chat_guard (chat_handle rev demo_parse) (chat_listening ''e'' quiet_table) chat_system_server"
    by (rule served_trans [OF handle_all_served [OF chat_system_server_run(2,1)] served_chat_demo])
  from chat_system [OF no_sessions_quiet_chat_client chat_system_client_run(2,1) empty_quiet_table this, of 1]
  show ?thesis
    by (auto simp: chat_system_server_run chat_system_client_run quiet_chat_client_def)
qed

end
