(* ===== verification/Notification_Server.thy ===== *)
theory Notification_Server
  imports Registry_Server
begin

text \<open>
  \<open>src/example/notification/notification_server.cpp\<close>: the same table of sessions, whose messages are
  ignored; every five seconds a timer sends the text \<open>notify\<close> to all of them. \<open>timers\<close> counts the waits
  started on the timer and not completed; a wait completes, with or without an error, once.
\<close>

section \<open>The server\<close>

datatype notification_message = Ignore_message
datatype notification_close = Notification_closed "32 word"

record notification_world = "(notification_message, notification_close) registry_world" +
  timers :: nat

definition notification_has_id :: "32 word \<Rightarrow> notification_world \<Rightarrow> bool" where
  "notification_has_id key w \<longleftrightarrow> map_of (sessions w) key \<noteq> None"

definition notification_create_id :: "notification_world \<Rightarrow> (32 word, notification_world) res" where
  "notification_create_id w =
     (case next_free (\<lambda>key. notification_has_id key w) (last_id w) of
        None \<Rightarrow> Undef
      | Some key \<Rightarrow> Ok key (w\<lparr>last_id := key\<rparr>))"

definition notification_add :: "sid \<Rightarrow> notification_world \<Rightarrow> (32 word, notification_world) res" where
  "notification_add session w =
     bind_res (notification_create_id w) (\<lambda>key w1. Ok key (w1\<lparr>sessions := emplace key session (sessions w1)\<rparr>))"

definition notification_remove :: "32 word \<Rightarrow> notification_world \<Rightarrow> (unit, notification_world) res" where
  "notification_remove key w = (case map_of (sessions w) key of None \<Rightarrow> Undef | Some session \<Rightarrow> Ok () w)"

definition notification_get :: "32 word \<Rightarrow> notification_world \<Rightarrow> (sid, notification_world) res" where
  "notification_get key w =
     (case map_of (sessions w) key of
        None \<Rightarrow> Exc (Runtime_error ''session gone'') w
      | Some session \<Rightarrow> Ok session w)"

definition notification_send_all ::
    "order \<Rightarrow> bytes \<Rightarrow> notification_world \<Rightarrow> (unit, notification_world) res" where
  "notification_send_all order message w = send_each (map snd (traverse order (sessions w))) message w"

fun notification_on_message ::
    "notification_message \<Rightarrow> bytes \<Rightarrow> notification_world \<Rightarrow> (unit, notification_world) res" where
  "notification_on_message Ignore_message message w = Ok () w"

fun notification_on_close ::
    "notification_close \<Rightarrow> error_code \<Rightarrow> notification_world \<Rightarrow> (unit, notification_world) res" where
  "notification_on_close (Notification_closed key) err w =
     notification_remove key (print ''info: connection closed'' w)"

definition notification_user ::
    "(notification_message, notification_close, notification_world) user_code" where
  "notification_user = \<lparr>run_message = notification_on_message, run_close = notification_on_close\<rparr>"

definition notification_close_all :: "order \<Rightarrow> notification_world \<Rightarrow> (unit, notification_world) res" where
  "notification_close_all order w =
     close_each notification_user (map snd (traverse order (sessions w))) w"

definition notification_do_accept :: "notification_world \<Rightarrow> notification_world" where
  "notification_do_accept w = async_accept w"

definition notification_connected :: "notification_world \<Rightarrow> (unit, notification_world) res" where
  "notification_connected w =
     bind_res (create_session True (print ''info: new connection'' w)) (\<lambda>session w1.
       bind_res (notification_add session w1) (\<lambda>key w2.
         seq (set_onclose notification_user session (User (Notification_closed key)) w2) (\<lambda>w3.
           call_on session (set_onmessage (User Ignore_message)) w3)))"

definition notification_on_accept :: "error_code \<Rightarrow> notification_world \<Rightarrow> (unit, notification_world) res" where
  "notification_on_accept err w =
     seq (if \<not> failed err then notification_connected (accept_done w) else Ok () (accept_done w))
         (\<lambda>w1. Ok () (notification_do_accept w1))"

definition notification_server :: "'g os \<Rightarrow> string \<Rightarrow> notification_world \<Rightarrow> (unit, notification_world) res" where
  "notification_server os path w = seq (open_acceptor os path w) (\<lambda>w1. Ok () (notification_do_accept w1))"

section \<open>The timer\<close>

definition notify :: "notification_world \<Rightarrow> notification_world" where
  "notify w = w\<lparr>timers := Suc (timers w)\<rparr>"

definition on_timer :: "order \<Rightarrow> error_code \<Rightarrow> notification_world \<Rightarrow> (unit, notification_world) res" where
  "on_timer order err w =
     seq (notification_send_all order (text_bytes ''notify'') (print ''notify'' (w\<lparr>timers := timers w - 1\<rparr>)))
         (\<lambda>w1. Ok () (notify w1))"

datatype notification_event = Server_event server_event | Timer error_code

fun notification_handle ::
    "order \<Rightarrow> notification_event \<Rightarrow> notification_world \<Rightarrow> (unit, notification_world) res" where
  "notification_handle order (Server_event Signal) w = Ok () w"
| "notification_handle order (Server_event (Accepted err)) w = notification_on_accept err w"
| "notification_handle order (Server_event (Io i k err data)) w = complete notification_user i k err data w"
| "notification_handle order (Timer err) w = on_timer order err w"

section \<open>The program\<close>

definition notification_server_usage :: "string list" where
  "notification_server_usage =
    [''notification-server, (C) 2024 Falk Werner'',
     ''Sample notification server'',
     '''',
     ''Usage:'',
     ''    notification-server -e <endpoint>'',
     '''',
     ''Options:'',
     ''    -e, --endpoint <endpoint> - Endpoint to listen (default: /tmp/oizys_example_notify.sock)'',
     ''    -h, --help                - Prints this message'',
     '''',
     ''Example:'',
     ''    notification-server -e /tmp/notify.sock'']"

definition notification_server_run ::
    "'g os \<Rightarrow> order \<Rightarrow> string \<Rightarrow> notification_event list \<Rightarrow> notification_world \<Rightarrow> (bool, notification_world) res" where
  "notification_server_run os order path events w =
     seq (notification_server os path (unlink path w)) (\<lambda>w1.
       bind_res (serve (\<lambda>e. e = Server_event Signal) (notification_handle order) events
           (print (''info: listening on '' @ path) (notify w1)))
         (\<lambda>finished w2.
            if finished
            then seq (notification_close_all order w2) (\<lambda>w3. Ok True (print ''info: shutdown'' w3))
            else Ok False w2))"

definition notification_server_main ::
    "'g os \<Rightarrow> order \<Rightarrow> 'g \<Rightarrow> notification_event list \<Rightarrow> notification_world
     \<Rightarrow> (int option, notification_world) res option" where
  "notification_server_main os order args events w =
     (case notification_server_application (os_getopt os) args of
        None \<Rightarrow> None
      | Some app \<Rightarrow> Some (
          let w0 = fold print_error (error_lines app) w in
          if \<not> show_help app then
            (case notification_server_run os order (endpoint app) events w0 of
               Ok finished w1 \<Rightarrow>
                 if finished then Ok (Some (exit_code app)) (unlink (endpoint app) w1) else Ok None w1
             | Exc e w1 \<Rightarrow>
                 if some_open w1 then Undef
                 else Ok (Some (exit_code app)) (unlink (endpoint app) (print_error (''error: '' @ what os e) w1))
             | Undef \<Rightarrow> Undef)
          else Ok (Some (exit_code app)) (fold print notification_server_usage w0)))"

section \<open>The contracts\<close>

lemma notification_remove_ids:
  "notification_remove key w = (if key \<in> ids w then Ok () w else Undef)"
  using map_of_ids [of w key] by (auto simp: notification_remove_def split: option.split)

interpretation notification_table: session_registry notification_add notification_remove notification_send_all
proof
  fix s and w :: notification_world
  have "(\<lambda>key. notification_has_id key w) = (\<lambda>key. key \<in> ids w)"
    by (simp only: notification_has_id_def map_of_ids)
  then show "notification_add s w = (case next_free (\<lambda>key. key \<in> ids w) (last_id w) of
      None \<Rightarrow> Undef | Some key \<Rightarrow> Ok key (w\<lparr>sessions := sessions w @ [(key, s)], last_id := key\<rparr>))"
    using next_free_result [of "\<lambda>key. key \<in> ids w" "last_id w"] map_of_ids [of w]
    by (auto simp: notification_add_def notification_create_id_def emplace_def split: option.split)
qed (simp_all add: notification_remove_ids notification_send_all_def)

fun notification_key :: "notification_close \<Rightarrow> 32 word" where
  "notification_key (Notification_closed key) = key"

interpretation notification: registry_server notification_user notification_key
  Notification_closed "\<lambda>_. Ignore_message" timers
proof
  fix c err and w :: notification_world
  show "run_close notification_user c err w
      = (if notification_key c \<in> ids w then Ok () (print ''info: connection closed'' w) else Undef)"
    by (cases c) (simp add: notification_user_def notification_remove_ids)
next
  fix B m message and w :: notification_world
  assume "store_inv B w"
  then show "res_all (keeps B w) (run_message notification_user m message w)"
    by (cases m) (simp add: notification_user_def keeps_refl)
next
  fix w :: notification_world and key p
  show "\<exists>w'. run_message notification_user Ignore_message p w = Ok () w' \<and> same_registry w w'
      \<and> (\<forall>j. same_handlers (heap w j) (heap w' j)) \<and> timers w' = timers w"
    by (simp add: notification_user_def same_registry_def same_handlers_def)
qed (simp_all add: print_on_session, simp_all add: print_def print_bytes_def on_session_def)

lemma notification_all_closed:
  assumes inv: "notification.inv w"
  shows "\<exists>w'. notification_close_all order w = Ok () w' \<and> \<not> some_open w'"
proof -
  have "set (map snd (traverse order (sessions w))) = {..<next_sid w}"
    using inv by (simp add: notification.inv_def registry_ok_def)
  then obtain w' where w': "notification_close_all order w = Ok () w'" "same_registry w w'"
    "\<forall>i < next_sid w. \<not> socket_open (heap w' i)"
    using notification.close_each_ok [OF inv, of "map snd (traverse order (sessions w))"]
    by (auto simp: notification_close_all_def)
  then show ?thesis by (auto simp: some_open_def list_ex_iff same_registry_def)
qed

section \<open>The invariant of the program\<close>

definition notification_inv :: "notification_world \<Rightarrow> bool" where
  "notification_inv w \<longleftrightarrow> notification.inv w \<and> timers w = 1
     \<and> (\<forall>i < next_sid w. set (accepted (heap w i)) \<subseteq> {text_bytes ''notify''})"

fun notification_guard :: "notification_event \<Rightarrow> notification_world \<Rightarrow> bool" where
  "notification_guard (Server_event (Accepted err)) w =
     (occurs (Accepted err) w \<and> (failed err \<or> Suc (next_sid w) < 2 ^ 32))"
| "notification_guard (Server_event e) w = occurs e w"
| "notification_guard (Timer err) w = (0 < timers w)"

lemma notification_connected_eq:
  fixes w :: notification_world
  assumes "registry_ok w" "Suc (next_sid w) < 2 ^ 32"
  defines "key \<equiv> of_nat (Suc (next_sid w))"
  shows "notification_connected w = Ok () (with_new (connected Ignore_message (Notification_closed key))
    ((print ''info: new connection'' w)\<lparr>sessions := sessions w @ [(key, next_sid w)], last_id := key\<rparr>))"
proof -
  let ?w1 = "(print ''info: new connection'' w)\<lparr>heap := (heap w)(next_sid w := asio_session True),
      next_sid := Suc (next_sid w)\<rparr>"
  have "notification_add (next_sid w) ?w1 = Ok key
      (?w1\<lparr>sessions := sessions w @ [(key, next_sid w)], last_id := key\<rparr>)"
    using registry_ok_next [OF assms(1,2)]
    by (simp add: notification_table.add_spec ids_def key_def del: of_nat_Suc)
  then show ?thesis
    by (simp add: notification_connected_def create_session_def set_onclose_def Let_def call_on_def set_onmessage_def
        on_session_def server_defs with_new_def connected_def asio_session_def del: of_nat_Suc)
qed

lemma timers_simps [simp]:
  "timers (print l w) = timers w" "timers (async_accept w) = timers w" "timers (accept_done w) = timers w"
  "timers (with_new s w) = timers w" "timers (broadcast S m w) = timers w"
  by (simp_all add: server_defs with_new_def broadcast_def)

lemma notification_accept_ok:
  fixes w :: notification_world
  assumes inv: "notification_inv w" and room: "failed err \<or> Suc (next_sid w) < 2 ^ 32"
  shows "\<exists>w'. notification_on_accept err w = Ok () w' \<and> notification_inv w'"
proof (cases "failed err")
  case True
  then show ?thesis using notification.refused_ok [of w] inv
    by (simp add: notification_on_accept_def notification_do_accept_def notification_inv_def)
next
  case False
  then have room: "Suc (next_sid w) < 2 ^ 32" using room by simp
  have i: "notification.inv w" "timers w = 1" using inv by (simp_all add: notification_inv_def)
  have "registry_ok (accept_done w)" using i by (simp add: notification.inv_def registry_ok_def)
  from notification_connected_eq [OF this] notification.connect_ok [OF i(1) room, of "''info: new connection''"] room
  show ?thesis using False i(2) inv
    by (simp add: notification_on_accept_def notification_do_accept_def notification_inv_def del: of_nat_Suc)
qed

lemma valid_notify: "valid_content (text_bytes ''notify'')"
  by (simp add: valid_content_def text_bytes_def)

lemma on_timer_eq:
  assumes inv: "notification_inv w"
  shows "on_timer order err w = Ok () (broadcast {..<next_sid w} (text_bytes ''notify'') (print ''notify'' w))"
    and "notification_inv (broadcast {..<next_sid w} (text_bytes ''notify'') (print ''notify'' w))"
proof -
  let ?w1 = "print ''notify'' (w\<lparr>timers := 0\<rparr>)"
  have i: "notification.inv w" "timers w = 1" using inv by (simp_all add: notification_inv_def)
  then have ok: "registry_ok ?w1" by (simp add: notification.inv_def registry_ok_def)
  have "notification_send_all order (text_bytes ''notify'') ?w1
      = Ok () (broadcast {..<next_sid w} (text_bytes ''notify'') ?w1)"
    using notification_table.send_all_broadcast [OF valid_notify registry_ok_distinct [OF ok]]
      registry_ok_sids [OF ok] by simp
  then show "on_timer order err w = Ok () (broadcast {..<next_sid w} (text_bytes ''notify'') (print ''notify'' w))"
    using i(2) by (cases w) (simp add: on_timer_def notify_def broadcast_def print_def print_bytes_def cong: if_cong)
  have "notification.inv (print ''notify'' w)"
    by (rule notification.inv_upd [OF i(1)])
      (use i(1) in \<open>simp_all add: notification.inv_def store_inv_def same_registry_def\<close>)
  from notification.inv_broadcast [OF this valid_notify]
  show "notification_inv (broadcast {..<next_sid w} (text_bytes ''notify'') (print ''notify'' w))"
    using i(2) inv by (auto simp: notification_inv_def)
qed

text \<open>No completion on a session makes the server send anything.\<close>

lemma notification_message_run: "run_message notification_user m p w = Ok () w"
  by (cases m) (simp add: notification_user_def)

lemma notification_io_accepted:
  assumes inv: "notification.inv w" and io: "io_occurs i k err data w"
    and c: "complete notification_user i k err data w = Ok () w'"
  shows "accepted (heap w' j) = accepted (heap w j)"
proof -
  have w: "store_inv {} w" using inv by (simp add: notification.inv_def)
  have comp: "i < next_sid w" "k < length (pending (heap w i))" "io_result (pending (heap w i) ! k) err data"
    using io by (simp_all add: io_occurs_def)
  show ?thesis
    by (rule notification.complete_outcome [OF w comp notification.closing_ok [OF inv comp(1)]])
      (use c in \<open>auto simp: same_face_def notification_message_run\<close>)
qed

interpretation notification_program:
  server_program notification_guard "notification_handle order" notification_inv for order
proof
  fix w e assume inv: "notification_inv w" and g: "notification_guard e w"
  show "\<exists>w'. notification_handle order e w = Ok () w' \<and> notification_inv w'"
  proof (cases e)
    case (Server_event s)
    then show ?thesis
    proof (cases s)
      case (Io i k err data)
      then show ?thesis
        using notification.io_ok [of w i k err data] notification_io_accepted [of w i k err data] inv g Server_event
        by (fastforce simp: notification_inv_def same_registry_def)
    qed (use Server_event inv g notification_accept_ok in auto)
  qed (use on_timer_eq [OF inv] in simp)
qed

section \<open>Properties\<close>

text \<open>The world a started server waits in: the wait on the timer is started before the loop.\<close>

definition notification_listening :: "string \<Rightarrow> notification_world \<Rightarrow> notification_world" where
  "notification_listening path w = print (''info: listening on '' @ path)
     (notify (notification_do_accept (w\<lparr>syscalls := syscalls w @ [Unlink path, Bind path]\<rparr>)))"

definition no_timer :: "notification_world \<Rightarrow> bool" where
  "no_timer w \<longleftrightarrow> empty_table w \<and> timers w = 0"

lemma notification_listening_inv: "no_timer w \<Longrightarrow> notification_inv (notification_listening path w)"
  using store_inv_fresh [of w]
  by (simp add: notification_listening_def notification_do_accept_def notification.inv_def notification_inv_def
      no_timer_def empty_table_def registry_ok_def numbered_def store_inv_def notify_def print_def print_bytes_def
      async_accept_def)

lemma served_notification_inv:
  "no_timer w0 \<Longrightarrow> served notification_guard (notification_handle order) (notification_listening path w0) w
   \<Longrightarrow> notification_inv w"
  by (blast intro: notification_program.served_inv notification_listening_inv)

text \<open>A run: a client connects and the timer has expired once.\<close>

definition quiet_notification :: notification_world where
  "quiet_notification = \<lparr>heap = (\<lambda>_. asio_session False), next_sid = 0, cout = [], cerr = [], accepts = 0,
     syscalls = [], sessions = [], last_id = 0, timers = 0\<rparr>"

definition notification_demo_events :: "notification_event list" where
  "notification_demo_events = [Server_event (Accepted no_error), Timer no_error]"

definition notification_demo :: notification_world where
  "notification_demo = the (state_of (handle_all (notification_handle rev) notification_demo_events
     (notification_listening ''e'' quiet_notification)))"

lemmas notification_demo_defs = notification_demo_def notification_demo_events_def notification_listening_def
  quiet_notification_def notification_do_accept_def server_defs notification_on_accept_def
  notification_connected_def notification_user_def run_defs notification_add_def notification_create_id_def
  notification_has_id_def next_free.simps [of _ 0] next_free.simps [of _ 1] emplace_def notify_def on_timer_def
  notification_send_all_def traverse_def text_bytes_def

lemma no_timer_quiet: "no_timer quiet_notification"
  by (simp add: no_timer_def empty_table_def fresh_def no_sessions_def quiet_notification_def)

lemma notification_demo_run:
  "handle_all (notification_handle rev) notification_demo_events (notification_listening ''e'' quiet_notification)
     = Ok () notification_demo"
  "feasible (\<lambda>_. False) notification_guard (notification_handle rev) notification_demo_events
     (notification_listening ''e'' quiet_notification)"
  by (simp_all add: notification_demo_defs)

lemma notification_demo_fields:
  "next_sid notification_demo = 1" "timers notification_demo = 1" "accepts notification_demo = 1"
  "accepted (heap notification_demo 0) = [[110, 111, 116, 105, 102, 121]]"
  by (simp_all add: notification_demo_defs)

lemma served_notification_demo:
  "served notification_guard (notification_handle rev) (notification_listening ''e'' quiet_notification) notification_demo"
  by (rule handle_all_served [OF notification_demo_run(2,1)])

text \<open>
  C32: no event a started notification server can meet raises an exception or has undefined behaviour;
  afterwards exactly one accept and exactly one wait on the timer are under way.
\<close>

theorem notification_server_survives:
  assumes "no_timer w0"
    and "served notification_guard (notification_handle order) (notification_listening path w0) w"
    and "notification_guard e w"
  shows "\<exists>w'. notification_handle order e w = Ok () w' \<and> accepts w' = 1 \<and> timers w' = 1"
  using notification_program.event_ok [OF served_notification_inv [OF assms(1,2)] assms(3), of order]
  unfolding notification_inv_def notification.inv_def by blast

theorem notification_server_survives_witness:
  "\<exists>w'. notification_handle rev (Server_event (Accepted no_error)) notification_demo = Ok () w'
    \<and> accepts w' = 1 \<and> timers w' = 1"
  by (rule notification_server_survives [OF no_timer_quiet served_notification_demo])
    (simp add: notification_demo_fields)

text \<open>
  C30: when a wait on the timer completes, with or without an error, the text notify is put into the queue
  of every session ever accepted, closed ones included, and the next wait is started.
\<close>

theorem notify_reaches_all:
  assumes "no_timer w0"
    and "served notification_guard (notification_handle order) (notification_listening path w0) w"
  shows "\<exists>w'. notification_handle order (Timer err) w = Ok () w' \<and> timers w' = 1
    \<and> cout w' = cout w @ [text_bytes ''notify'']
    \<and> (\<forall>j < next_sid w. accepted (heap w' j) = accepted (heap w j) @ [text_bytes ''notify'']
        \<and> length (write_queue (heap w' j)) = Suc (length (write_queue (heap w j))))"
proof -
  have inv: "notification_inv w" by (rule served_notification_inv [OF assms])
  then have "timers w = 1" by (simp add: notification_inv_def)
  then show ?thesis using on_timer_eq(1) [OF inv, of order err]
    by simp (simp add: broadcast_def print_def print_bytes_def)
qed

theorem notify_reaches_all_witness:
  "\<exists>w'. notification_handle rev (Timer bad_message) notification_demo = Ok () w'
    \<and> length (accepted (heap w' 0)) = 2"
  using notify_reaches_all [OF no_timer_quiet served_notification_demo, of bad_message]
  by (auto simp: notification_demo_fields)

text \<open>
  C31: a client of the notification server receives nothing but the text notify: whatever clients send,
  every message a session has accepted is this text, and so is every message on its wire.
\<close>

theorem only_notifications:
  assumes "no_timer w0"
    and "served notification_guard (notification_handle order) (notification_listening path w0) w"
    and "i < next_sid w"
  shows "set (accepted (heap w i)) \<subseteq> {text_bytes ''notify''}
    \<and> (\<exists>n. prefix (wire_out (heap w i)) (concat (replicate n (frame_of (text_bytes ''notify'')))))"
proof -
  have inv: "notification_inv w" by (rule served_notification_inv [OF assms(1,2)])
  then have acc: "set (accepted (heap w i)) \<subseteq> {text_bytes ''notify''}" and "writer_inv (heap w i)"
    using assms(3) session_inv_D(1) [OF store_invD, of "{}" w i]
    by (auto simp: notification_inv_def notification.inv_def)
  then have "prefix (wire_out (heap w i)) (stream (accepted (heap w i)))"
    using writer_inv_prefix by blast
  moreover have "accepted (heap w i) = replicate (length (accepted (heap w i))) (text_bytes ''notify'')"
    using acc by (intro replicate_eqI) auto
  then have "stream (accepted (heap w i))
      = concat (replicate (length (accepted (heap w i))) (frame_of (text_bytes ''notify'')))"
    by (metis map_replicate)
  ultimately show ?thesis using acc by metis
qed

theorem only_notifications_witness:
  "set (accepted (heap notification_demo 0)) \<subseteq> {text_bytes ''notify''}"
  using only_notifications [OF no_timer_quiet served_notification_demo, of 0] by (simp add: notification_demo_fields)

text \<open>
  \<open>main\<close> of the notification server, once its options are parsed, on every path: the same outcomes as the
  chat server's.
\<close>

theorem notification_server_main_outcomes:
  assumes "notification_server_application (os_getopt os) args = Some app" and "no_timer w"
    and "\<not> show_help app \<longrightarrow> feasible (\<lambda>e. e = Server_event Signal) notification_guard (notification_handle order) events
      (notification_listening (endpoint app) (fold print_error (error_lines app) w))"
  shows "\<exists>r w'. notification_server_main os order args events w = Some (Ok r w')
    \<and> (if show_help app
       then r = Some (if error_lines app = [] then EXIT_SUCCESS else EXIT_FAILURE)
         \<and> error_lines app \<in> {[], [''error: invalid option'']}
         \<and> w' = w\<lparr>cout := cout w @ map text_bytes notification_server_usage,
                 cerr := cerr w @ map text_bytes (error_lines app)\<rparr>
       else case os_bind os (endpoint app) of
         Some code \<Rightarrow> r = Some EXIT_SUCCESS \<and> last (cerr w') = text_bytes (''error: '' @ os_error_text os code)
           \<and> syscalls w' = syscalls w @ [Unlink (endpoint app), Bind (endpoint app), Unlink (endpoint app)]
       | None \<Rightarrow> r = (if Server_event Signal \<in> set events then Some EXIT_SUCCESS else None)
           \<and> (Server_event Signal \<in> set events \<longrightarrow> last (cout w') = text_bytes ''info: shutdown''
               \<and> last (syscalls w') = Unlink (endpoint app) \<and> \<not> some_open w'))"
proof (cases "show_help app")
  case True
  then show ?thesis using assms(1) notification_server_parsed [OF assms(1)]
    by (auto simp: notification_server_main_def Let_def usage_shown_eq usage_shown_def parsed_def
        EXIT_SUCCESS_def EXIT_FAILURE_def)
next
  case run: False
  let ?w0 = "fold print_error (error_lines app) w"
  have ec: "exit_code app = EXIT_SUCCESS" using notification_server_parsed [OF assms(1)] run by (simp add: parsed_def)
  have nt: "no_timer ?w0" using assms(2) by (simp add: no_timer_def empty_table_def) (simp add: fold_print_error)
  obtain w2 where w2: "serve (\<lambda>e. e = Server_event Signal) (notification_handle order) events
      (notification_listening (endpoint app) ?w0) = Ok (Server_event Signal \<in> set events) w2" "notification_inv w2"
    using notification_program.serve_ok [OF notification_listening_inv [OF nt] mp [OF assms(3) run]] by auto
  obtain w3 where w3: "notification_close_all order w2 = Ok () w3" "\<not> some_open w3"
    using notification_all_closed [of w2] w2(2) unfolding notification_inv_def by blast
  have "\<not> some_open ?w0"
    using assms(2) by (simp add: no_timer_def empty_table_def fresh_def no_sessions_def some_open_def)
  then show ?thesis using w2(1) w3 assms(1) run ec
    by (cases "os_bind os (endpoint app)"; cases "Server_event Signal \<in> set events")
      (simp_all add: notification_server_main_def Let_def notification_server_run_def notification_server_def
        open_acceptor_def unlink_def notification_listening_def print_def print_bytes_def print_error_def some_open_def)
qed

lemma notification_demo_application:
  "notification_server_application (os_getopt demo_os) [] = Some \<lparr>exit_code = 0, show_help = False,
     endpoint = ''/tmp/oizys_example_notify.sock'', error_lines = []\<rparr>"
  by (simp add: notification_server_application_def demo_options notification_server_switch_def EXIT_SUCCESS_def)

lemma notification_demo_feasible:
  "feasible (\<lambda>e. e = Server_event Signal) notification_guard (notification_handle order)
     [Timer no_error, Server_event Signal] (notification_listening path quiet_notification)"
  using notification_program.event_ok [OF notification_listening_inv [OF no_timer_quiet], of "Timer no_error"]
    notification_listening_inv [OF no_timer_quiet]
  by (auto simp: notification_inv_def split: res.split)

theorem notification_server_main_outcomes_witness:
  "\<exists>r w'. notification_server_main demo_os rev [] [Timer no_error, Server_event Signal] quiet_notification
      = Some (Ok r w') \<and> r = Some 0 \<and> \<not> some_open w'"
  using notification_server_main_outcomes [where order = rev, OF notification_demo_application no_timer_quiet,
      where events = "[Timer no_error, Server_event Signal]"]
  by (simp add: notification_demo_feasible EXIT_SUCCESS_def del: feasible.simps) blast

end
