(* ===== verification/Notification_Client.thy ===== *)
theory Notification_Client
  imports Client_Loop
begin

text \<open>
  \<open>src/example/notification/notification_client.cpp\<close>: connect, print every message that arrives, and end
  on a signal or when the session is closed.
\<close>

section \<open>The program\<close>

datatype notify_message = Print_message
datatype notify_close = Stop_client

record notification_client_world = "(notify_message, notify_close) console_world" +
  shutdown_requested :: bool

fun notification_client_on_message ::
    "notify_message \<Rightarrow> bytes \<Rightarrow> notification_client_world \<Rightarrow> (unit, notification_client_world) res" where
  "notification_client_on_message Print_message message w = Ok () (print_bytes message w)"

fun notification_client_on_close ::
    "notify_close \<Rightarrow> error_code \<Rightarrow> notification_client_world \<Rightarrow> (unit, notification_client_world) res" where
  "notification_client_on_close Stop_client err w = Ok () (w\<lparr>shutdown_requested := True\<rparr>)"

definition notification_client_user ::
    "(notify_message, notify_close, notification_client_world) user_code" where
  "notification_client_user =
     \<lparr>run_message = notification_client_on_message, run_close = notification_client_on_close\<rparr>"

definition notification_client_start ::
    "'g os \<Rightarrow> string \<Rightarrow> notification_client_world \<Rightarrow> (unit, notification_client_world) res" where
  "notification_client_start os path w =
     seq (connect os path w) (\<lambda>w1.
       bind_res (create_session True w1) (\<lambda>session w2.
         seq (set_onclose notification_client_user session (User Stop_client) w2) (\<lambda>w3.
           call_on session (set_onmessage (User Print_message)) w3)))"

fun notification_client_handle ::
    "client_event \<Rightarrow> notification_client_world \<Rightarrow> (unit, notification_client_world) res" where
  "notification_client_handle (Net i k err data) w = complete notification_client_user i k err data w"
| "notification_client_handle Interrupt w = Ok () (w\<lparr>shutdown_requested := True\<rparr>)"
| "notification_client_handle (Input err len data) w = Ok () w"

fun notification_client_occurs :: "client_event \<Rightarrow> notification_client_world \<Rightarrow> bool" where
  "notification_client_occurs (Net i k err data) w = io_occurs i k err data w"
| "notification_client_occurs Interrupt w = True"
| "notification_client_occurs (Input err len data) w = False"

definition notification_client_run ::
    "'g os \<Rightarrow> user_app \<Rightarrow> client_event list \<Rightarrow> notification_client_world \<Rightarrow> (bool, notification_client_world) res" where
  "notification_client_run os app events w =
     seq (notification_client_start os (endpoint app) (w\<lparr>shutdown_requested := False\<rparr>))
         (run_until shutdown_requested notification_client_handle events)"

definition notification_client_usage :: "string list" where
  "notification_client_usage =
    [''notification-client, (C) 2024 Falk Werner'',
     ''Sample notification client'',
     '''',
     ''Usage:'',
     ''    notification-client -e <endpoint> -u <user>'',
     '''',
     ''Options:'',
     ''    -e, --endpoint <endpoint> - Endpoint to listen (default: /tmp/oizys_example_notify.sock)'',
     ''    -h, --help                - Prints this message'',
     '''',
     ''Example:'',
     ''    notification-client -e /tmp/notify.sock'']"

definition notification_client_main ::
    "'g os \<Rightarrow> 'g \<Rightarrow> client_event list \<Rightarrow> notification_client_world
     \<Rightarrow> (int option, notification_client_world) res option" where
  "notification_client_main os args events w =
     (case notification_client_application (os_getopt os) args of
        None \<Rightarrow> None
      | Some app \<Rightarrow> Some (
          let w0 = fold print_error (error_lines app) w in
          if \<not> show_help app then
            (case notification_client_run os app events w0 of
               Ok ended w1 \<Rightarrow>
                 if ended then seq (leave notification_client_user w1) (Ok (Some (exit_code app))) else Ok None w1
             | Exc e w1 \<Rightarrow>
                 seq (leave notification_client_user w1) (\<lambda>w2.
                   Ok (Some (exit_code app)) (print_error (''error: '' @ what os e) w2))
             | Undef \<Rightarrow> Undef)
          else Ok (Some (exit_code app)) (fold print notification_client_usage w0)))"

section \<open>The contract and the invariant\<close>

interpretation notification_client:
  passive_user notification_client_user "\<lambda>_ _. True" "\<lambda>_ w. w\<lparr>shutdown_requested := True\<rparr>"
proof
  fix c err and w :: notification_client_world
  show "run_close notification_client_user c err w
      = (if True then Ok () (w\<lparr>shutdown_requested := True\<rparr>) else Undef)"
    by (cases c) (simp add: notification_client_user_def)
next
  fix B m message and w :: notification_client_world
  assume "store_inv B w"
  then show "res_all (keeps B w) (run_message notification_client_user m message w)"
    by (cases m) (simp add: notification_client_user_def keeps_heap)
qed (simp_all add: on_session_def)

definition notification_client_inv :: "bytes list \<Rightarrow> notification_client_world \<Rightarrow> bool" where
  "notification_client_inv out w \<longleftrightarrow> one_session w
     \<and> (if socket_open (heap w 0) then onmessage (heap w 0) = User Print_message \<and> onclose (heap w 0) = User Stop_client
        else onmessage (heap w 0) = No_op \<and> onclose (heap w 0) = No_op \<and> shutdown_requested w)
     \<and> cout w = out @ delivered (heap w 0)"

lemma notification_client_fields [simp]:
  "shutdown_requested (on_session i f w) = shutdown_requested w"
  "shutdown_requested (print_bytes m w) = shutdown_requested w"
  "heap (w\<lparr>shutdown_requested := b\<rparr>) = heap w" "next_sid (w\<lparr>shutdown_requested := b\<rparr>) = next_sid w"
  by (simp_all add: on_session_def print_bytes_def)

lemma cout_close_effect [simp]: "cout (notification_client.close_effect i w) = cout w"
  by (simp add: notification_client.close_effect_def split: func.split)

lemma notification_client_io:
  assumes inv: "notification_client_inv out w" and io: "io_occurs i k err data w"
  shows "\<exists>w'. complete notification_client_user i k err data w = Ok () w' \<and> notification_client_inv out w'"
proof -
  have w: "store_inv {} w" "next_sid w = 1" "i = 0"
    using inv one_session_event [OF _ io] by (simp_all add: notification_client_inv_def one_session_def)
  have comp: "i < next_sid w" "k < length (pending (heap w i))" "io_result (pending (heap w i) ! k) err data"
    using io by (simp_all add: io_occurs_def)
  have keep: "one_session w'" if "complete notification_client_user i k err data w = Ok () w'" "next_sid w' = 1" for w'
    using notification_client.complete_keeps [OF w(1) comp] that by (simp add: keeps_def one_session_def)
  have ca: "notification_client.closing_allowed i w" by (simp add: notification_client.closing_allowed_def)
  show ?thesis
  proof (rule notification_client.complete_outcome [OF w(1) comp ca])
    fix s assume s: "complete notification_client_user i k err data w = Ok () (on_session i (\<lambda>_. s) w)"
      "same_face (heap w i) s"
    then show ?thesis using inv keep [OF s(1)] w by (auto simp: notification_client_inv_def same_face_def)
  next
    fix s e assume s: "socket_open (heap w i)" "same_face (heap w i) s"
      "complete notification_client_user i k err data w
         = Ok () (on_session i (\<lambda>_. closed_by e s) (notification_client.close_effect i w))"
    have "notification_client.close_effect i w = w\<lparr>shutdown_requested := True\<rparr>"
      using inv s(1) w(3) by (simp add: notification_client.close_effect_def notification_client_inv_def)
    then show ?thesis using inv keep [OF s(3)] s w by (auto simp: notification_client_inv_def same_face_def)
  next
    fix m s p
    assume s: "onmessage (heap w i) = User m"
      "same_face ((heap w i)\<lparr>delivered := delivered (heap w i) @ [p]\<rparr>) s"
      and eq: "complete notification_client_user i k err data w
         = seq (swallow (run_message notification_client_user m p (on_session i (\<lambda>_. s) w)))
         (\<lambda>w2. Ok () (on_session i read_header w2))"
    let ?w' = "on_session i read_header (print_bytes p (on_session i (\<lambda>_. s) w))"
    have c: "complete notification_client_user i k err data w = Ok () ?w'"
      using eq by (cases m) (simp add: notification_client_user_def)
    show ?thesis using inv keep [OF c] c s w by (auto simp: notification_client_inv_def same_face_def split: if_splits)
  qed
qed

lemma notification_client_event_ok:
  "notification_client_inv out w \<Longrightarrow> notification_client_occurs e w \<Longrightarrow>
   \<exists>w'. notification_client_handle e w = Ok () w' \<and> notification_client_inv out w'"
proof (cases e)
  case Interrupt
  assume "notification_client_inv out w"
  then show ?thesis using Interrupt by (simp add: notification_client_inv_def one_session_def store_inv_def split: if_splits)
qed (use notification_client_io [of out w] in auto)

interpretation notification_client_program: quiet_client_program shutdown_requested notification_client_occurs
  notification_client_handle "notification_client_inv out" for out
proof
  fix w e assume "notification_client_inv out w" "notification_client_occurs e w"
  from notification_client_event_ok [OF this]
  show "notification_client_handle e w \<noteq> Undef \<and> res_all (notification_client_inv out) (notification_client_handle e w)"
    and "returns (notification_client_handle e w)"
    by auto
qed

section \<open>Properties\<close>

definition notification_client_started :: "notification_client_world \<Rightarrow> notification_client_world" where
  "notification_client_started w = with_new (connected Print_message Stop_client) (w\<lparr>shutdown_requested := False\<rparr>)"

lemma notification_client_start_eq:
  "notification_client_start os path (w\<lparr>shutdown_requested := False\<rparr>) =
     (case os_connect os path of
        Some code \<Rightarrow> Exc (System_error code) (w\<lparr>shutdown_requested := False\<rparr>)
      | None \<Rightarrow> Ok () (notification_client_started w))"
  by (simp add: notification_client_start_def connect_def create_session_def set_onclose_def Let_def call_on_def
      set_onmessage_def on_session_def notification_client_started_def with_new_def connected_def asio_session_def
      split: option.split)

lemma notification_client_started_inv:
  assumes "no_sessions w" shows "notification_client_inv (cout w) (notification_client_started w)"
proof -
  have "store_inv {} (notification_client_started w)" unfolding notification_client_started_def
    using assms by (intro store_inv_new_session session_inv_connected) (simp add: no_sessions_def)
  then show ?thesis using assms
    by (simp add: notification_client_inv_def one_session_def notification_client_started_def no_sessions_def with_new_def)
qed

lemma notification_client_leave:
  assumes "notification_client_inv out w"
  shows "\<exists>w'. leave notification_client_user w = Ok () w' \<and> \<not> socket_open (heap w' 0) \<and> cout w' = cout w
    \<and> delivered (heap w' 0) = delivered (heap w 0) \<and> frames_in (heap w' 0) = frames_in (heap w 0)
    \<and> wire_in (heap w' 0) = wire_in (heap w 0)"
proof -
  have "notification_client.closing_allowed 0 w" by (simp add: notification_client.closing_allowed_def)
  then show ?thesis using assms
    by (auto simp: leave_def destroy_session_def close_def notification_client.close_intern_eq
        notification_client_inv_def one_session_def closed_by_def)
qed

text \<open>
  C36: a notification client that could connect prints exactly the messages its handler is given, which
  are the first messages of the byte stream it reads, in order. It goes on while its session is open and no
  signal has come; then it ends with its session closed and the exit code of its options.
\<close>

theorem notification_client_prints_all:
  assumes "notification_client_application (os_getopt os) args = Some app" and "\<not> show_help app"
    and "no_sessions w" and "os_connect os (endpoint app) = None"
    and "possible shutdown_requested notification_client_occurs notification_client_handle events
      (notification_client_started (fold print_error (error_lines app) w))"
  shows "\<exists>r w'. notification_client_main os args events w = Some (Ok r w')
    \<and> cout w' = cout w @ delivered (heap w' 0)
    \<and> prefix (delivered (heap w' 0)) (fst (decode_all parse_frame (wire_in (heap w' 0))))
    \<and> (r = None \<longrightarrow> socket_open (heap w' 0) \<and> delivered (heap w' 0) = frames_in (heap w' 0))
    \<and> (r \<noteq> None \<longrightarrow> r = Some (exit_code app) \<and> \<not> socket_open (heap w' 0))"
proof -
  let ?w0 = "fold print_error (error_lines app) w"
  let ?w1 = "notification_client_started ?w0"
  have ns: "no_sessions ?w0" using assms(3) by (simp add: no_sessions_def)
  obtain w2 where w2: "run_until shutdown_requested notification_client_handle events ?w1 = Ok (shutdown_requested w2) w2"
    "notification_client_inv (cout w) w2"
    using notification_client_program.run_until_returns [OF notification_client_started_inv [OF ns] assms(5)] by auto
  have s: "session_inv False (heap w2 0)"
    using w2(2) store_invD [of "{}" w2 0] by (simp add: notification_client_inv_def one_session_def)
  have dec: "fst (decode_all parse_frame (wire_in (heap w2 0))) = frames_in (heap w2 0)"
    using reader_inv_decodes [OF session_inv_D(2) [OF s]] by blast
  have del: "prefix (delivered (heap w2 0)) (frames_in (heap w2 0))"
    "socket_open (heap w2 0) \<longrightarrow> delivered (heap w2 0) = frames_in (heap w2 0)"
    using session_inv_D(4) [OF s] w2(2) by (auto simp: delivery_inv_def notification_client_inv_def)
  obtain w3 where w3: "leave notification_client_user w2 = Ok () w3" "\<not> socket_open (heap w3 0)" "cout w3 = cout w2"
    "delivered (heap w3 0) = delivered (heap w2 0)" "wire_in (heap w3 0) = wire_in (heap w2 0)"
    using notification_client_leave [OF w2(2)] by blast
  show ?thesis using assms(1,2,4) w2 w3 dec del
    by (cases "shutdown_requested w2") (auto simp: notification_client_main_def notification_client_run_def
        notification_client_start_eq Let_def notification_client_inv_def split: if_splits)
qed

definition quiet_notification_client :: notification_client_world where
  "quiet_notification_client = \<lparr>heap = (\<lambda>_. asio_session False), next_sid = 0, cout = [], cerr = [],
     shutdown_requested = False\<rparr>"

definition notification_client_demo_events :: "client_event list" where
  "notification_client_demo_events = [Net 0 0 no_error [0, 0, 0, 1], Net 0 0 no_error [33], Interrupt]"

lemma notification_client_demo_application:
  "notification_client_application (os_getopt demo_os) [] = Some \<lparr>exit_code = 0, show_help = False,
     endpoint = ''/tmp/oizys_example_notify.sock'', error_lines = [], app_user = ''Bob''\<rparr>"
  by (simp add: notification_client_application_def demo_options notification_client_switch_def EXIT_SUCCESS_def)

lemma no_sessions_quiet_notification_client: "no_sessions quiet_notification_client"
  by (simp add: no_sessions_def quiet_notification_client_def)

lemma notification_client_demo_possible:
  "possible shutdown_requested notification_client_occurs notification_client_handle notification_client_demo_events
     (notification_client_started quiet_notification_client)"
  by (simp add: notification_client_started_def quiet_notification_client_def with_new_def connected_def
      notification_client_demo_events_def io_occurs_def notification_client_user_def print_bytes_def run_defs)

theorem notification_client_prints_all_witness:
  "\<exists>r w'. notification_client_main demo_os [] notification_client_demo_events quiet_notification_client = Some (Ok r w')
    \<and> cout w' = delivered (heap w' 0)"
  using notification_client_prints_all [OF notification_client_demo_application _ no_sessions_quiet_notification_client,
      of notification_client_demo_events] notification_client_demo_possible
  by (auto simp: quiet_notification_client_def)

end
