(* ===== verification/Notification_System.thy ===== *)
theory Notification_System
  imports Notification_Server Notification_Client
begin

text \<open>
  The notification server and one of its clients together, joined by the byte stream from the server's
  session to the client's.
\<close>

section \<open>A run\<close>

text \<open>A client connects, the timer expires, the server writes its message and the client prints it.\<close>

definition notification_bytes :: bytes where
  "notification_bytes = [110, 111, 116, 105, 102, 121]"

definition notification_system_server :: notification_world where
  "notification_system_server = the (state_of (handle_all (notification_handle rev)
     [Server_event (Io 0 1 no_error [0, 0, 0, 6]), Server_event (Io 0 1 no_error notification_bytes)] notification_demo))"

definition notification_system_events :: "client_event list" where
  "notification_system_events = [Net 0 0 no_error [0, 0, 0, 6], Net 0 0 no_error notification_bytes]"

definition notification_system_client :: notification_client_world where
  "notification_system_client = the (state_of (run_until shutdown_requested notification_client_handle
     notification_system_events (notification_client_started quiet_notification_client)))"

lemma notification_system_server_run:
  "handle_all (notification_handle rev)
     [Server_event (Io 0 1 no_error [0, 0, 0, 6]), Server_event (Io 0 1 no_error notification_bytes)] notification_demo
     = Ok () notification_system_server"
  "feasible (\<lambda>_. False) notification_guard (notification_handle rev)
     [Server_event (Io 0 1 no_error [0, 0, 0, 6]), Server_event (Io 0 1 no_error notification_bytes)] notification_demo"
  "next_sid notification_system_server = 1"
  "wire_out (heap notification_system_server 0) = [0, 0, 0, 6] @ notification_bytes"
  by (simp_all add: notification_system_server_def notification_demo_defs notification_bytes_def io_occurs_def)

lemma notification_system_client_run:
  "run_until shutdown_requested notification_client_handle notification_system_events
     (notification_client_started quiet_notification_client) = Ok False notification_system_client"
  "possible shutdown_requested notification_client_occurs notification_client_handle notification_system_events
     (notification_client_started quiet_notification_client)"
  "wire_in (heap notification_system_client 0) = [0, 0, 0, 6] @ notification_bytes"
  "cout notification_system_client = [notification_bytes]"
  by (simp_all add: notification_system_client_def notification_client_started_def quiet_notification_client_def
      with_new_def connected_def notification_system_events_def io_occurs_def notification_client_user_def
      print_bytes_def run_defs notification_bytes_def)

section \<open>The client prints notifications\<close>

text \<open>
  C4: a notification client connected to the notification server prints the line notify and nothing else,
  at most as often as the server has queued it for this client.
\<close>

theorem notification_system:
  assumes client: "no_sessions cw"
      "possible shutdown_requested notification_client_occurs notification_client_handle es (notification_client_started cw)"
      "run_until shutdown_requested notification_client_handle es (notification_client_started cw) = Ok ended wc"
    and server: "no_timer sw"
      "served notification_guard (notification_handle order) (notification_listening path sw) ws" "i < next_sid ws"
    and wire: "prefix (wire_in (heap wc 0)) (wire_out (heap ws i))"
  shows "\<exists>n \<le> length (accepted (heap ws i)). cout wc = cout cw @ replicate n (text_bytes ''notify'')"
proof -
  have c: "notification_client_inv (cout cw) wc"
    using notification_client_program.run_until_returns [OF notification_client_started_inv [OF client(1)] client(2)]
      client(3) by auto
  have s: "notification_inv ws" by (rule served_notification_inv [OF server(1,2)])
  have inv: "session_inv False (heap wc 0)" "session_inv False (heap ws i)"
    using c s store_invD [of "{}" wc 0] store_invD [of "{}" ws i]
    by (simp_all add: notification_client_inv_def one_session_def notification_inv_def notification.inv_def)
  have p: "prefix (delivered (heap wc 0)) (accepted (heap ws i))"
    using end_to_end_sessions [OF inv wire] session_inv_D(4) [OF inv(1)]
    by (auto simp: delivery_inv_def intro: prefix_order.trans)
  then have "set (delivered (heap wc 0)) \<subseteq> {text_bytes ''notify''}"
    using s server(3) set_mono_prefix [OF p] by (auto simp: notification_inv_def)
  then have "delivered (heap wc 0) = replicate (length (delivered (heap wc 0))) (text_bytes ''notify'')"
    by (intro replicate_eqI) auto
  then show ?thesis using c prefix_length_le [OF p] unfolding notification_client_inv_def by metis
qed

theorem notification_system_witness:
  "\<exists>n \<le> length (accepted (heap notification_system_server 0)).
     cout notification_system_client = replicate n (text_bytes ''notify'')"
proof -
  have "served notification_guard (notification_handle rev) (notification_listening ''e'' quiet_notification)
      notification_system_server"
    by (rule served_trans [OF handle_all_served [OF notification_system_server_run(2,1)] served_notification_demo])
  from notification_system [OF no_sessions_quiet_notification_client notification_system_client_run(2,1)
      no_timer_quiet this, of 0]
  show ?thesis
    by (simp add: notification_system_server_run(3,4) notification_system_client_run(3) quiet_notification_client_def)
qed

end
