(* ===== verification/Version.thy ===== *)
theory Version
  imports Prelude
begin

text \<open>
  \<open>src/inc/oizys/version.hpp\<close> and \<open>src/src/version.cpp\<close>: the version constants and the functions that
  return them from the compiled library.
\<close>

definition major_version :: "int" where "major_version = 1"

definition minor_version :: "int" where "minor_version = 0"

definition patch_version :: "int" where "patch_version = 0"

definition get_major_version :: "int" where "get_major_version = major_version"

definition get_minor_version :: "int" where "get_minor_version = minor_version"

definition get_patch_version :: "int" where "get_patch_version = patch_version"

end
