(* ===== verification/Spec2Isabelle.thy ===== *)
theory Spec2Isabelle
  imports Library_Properties Channel Echo_Server Echo_Client Chat_System Notification_System Version
begin

text \<open>
  \<^bold>\<open>A verification development for liboizys.\<close>

  liboizys exchanges length-prefixed messages over Unix domain sockets. The library (\<open>src/src\<close>, \<open>src/inc\<close>)
  has one class, the session; six example programs (\<open>src/example\<close>) use it: a server and a client for each of
  echo, chat and notification. The development models the library and the six programs as they are
  written, and proves what they promise, separately and together.

  \<^bold>\<open>The parts of the program, and how they interact.\<close>
  A message is framed by \<open>com_message\<close> (four header bytes: a zero and the length as 24 bits, big-endian; then
  the payload). A session owns a socket, a queue of messages to write, the message it reads and two
  handlers. \<open>send\<close> queues a message and starts a write if none is under way; the completions of the writes
  of a header and of a payload start each other until the queue is empty. \<open>set_onmessage\<close> starts the reader,
  whose completions alternate in the same way and call the handler once for every payload. \<open>close\<close>, a failed transfer or a
  bad header close the socket, call the close handler and replace both handlers. Handlers are code
  of the program: they may call any method of any session, also from inside a handler.
  The servers accept connections, give each one a session with two handlers, and end on a signal; the chat
  and the notification server keep their sessions in a table. The clients connect once, and
  run the event loop until a flag is set.

  \<^bold>\<open>Theories.\<close>
  \<^item> \<open>Prelude\<close>: machine types, results of code that may throw or have undefined behaviour (\<open>Ok\<close>, \<open>Exc\<close>, \<open>Undef\<close>)
    with their combinators \<open>seq\<close> and \<open>swallow\<close> (a \<open>try\<close> with an empty \<open>catch\<close>), and list lemmas.
  \<^item> \<open>Stream_Codec\<close>: the locale \<open>stream_codec\<close>, an encoder and a decoder of one message at the head of a stream,
    and what follows for streams of messages. \<open>Com_Message\<close>: \<open>com_message.cpp\<close> on 64-bit words, and its
    interpretation \<open>wire\<close> of the locale; round trips and bounds of the header.
  \<^item> \<open>Asio_Session\<close>: \<open>asio_session.cpp\<close>, \<open>session.cpp\<close> and \<open>session_i.hpp\<close>, method by method and completion
    handler by completion handler. Sessions are records in a store indexed by identity. Their fields are the members
    of the class, the operations under way (\<open>pending\<close>), and history that no code reads: the messages
    accepted, the bytes written and read, the payloads received and handed on, the calls of the close handler.
  \<^item> \<open>Session_Inv\<close>, \<open>Session_Safety\<close>, \<open>User_Code\<close>, \<open>Completion\<close>: the invariant of a session (writer, reader, close
    handler, delivery), and that every method and completion keeps it provided user code does
    (locale \<open>session_user\<close>). \<open>Library_Steps\<close>: calls and completions as a step relation, reachable
    stores, and clients given by arbitrary scripts of calls (\<open>scripted\<close>), the interpretation of \<open>session_user\<close>.
  \<^item> \<open>Nesting\<close>: the recursion of handlers calling methods calling handlers ends. \<open>Delivery\<close>: what a
    sender and a receiver joined by a byte stream promise. \<open>Demo_Run\<close>: the steps as an executable run.
    \<open>Library_Properties\<close>: the properties of the library.
  \<^item> \<open>Channel\<close>: the abstract specification, a channel of two first-in first-out pipes of whole messages, and the
    proof by forward simulation that two programs with connected sessions refine it.
  \<^item> \<open>Passive_User\<close>: programs whose close handlers call no method (all six): closing and completions have
    explicit outcomes. \<open>App_Options\<close>: the option parsers. \<open>Server_Loop\<close>, \<open>Client_Loop\<close>: the console,
    the events, the event loops and the contracts \<open>server_program\<close> and \<open>client_program\<close>. \<open>Registry\<close>,
    \<open>Registry_Server\<close>: the session table of the two servers that have one, and the contract \<open>registry_server\<close>.
  \<^item> \<open>Echo_Server\<close>, \<open>Chat_Server\<close>, \<open>Notification_Server\<close>, \<open>Echo_Client\<close>, \<open>Chat_Client\<close>, \<open>Notification_Client\<close>:
    one theory for each file of \<open>src/example\<close> of that name, from its \<open>main\<close> down, with interpretations of the contracts. \<open>Version\<close>: the
    version constants.
  \<^item> \<open>Chat_System\<close>, \<open>Notification_System\<close> and this theory compose a server with a client, two programs joined
    by byte streams.

  \<^bold>\<open>What is shown.\<close>
  For the library, for handlers that do anything and for every interleaving: messages arrive in order, unaltered,
  and once; an open session flushes its queue; the reader finds what a reference decoder finds; at most one
  read and one write are under way; the close handler runs at most once and a closed
  session is silent; and, for handlers that create no sessions, no call has undefined behaviour and the nesting of
  handlers is bounded (\<open>creating_handlers_never_return\<close> shows why not otherwise). For the programs: every
  event is handled without an exception leaving the event loop, every path of \<open>main\<close> has the stated result, and
  the function of the program: what is echoed, broadcast, printed. For each pair of programs: what the client prints is
  what the server has sent for it. Several properties state defects the
  code has: the inverted test in \<open>remove\<close> keeps closed sessions in the tables for ever, ids run out,
  the chat client loses input, the echo client can wait for ever, and an empty message handler starts two readers.

  \<^bold>\<open>Bounds and fuel.\<close>
  The message limit is the code's 24 bits. Scripted handlers have fuel for their nesting; if they create no sessions, with one
  more than there are sessions no reachable store is cut short (\<open>nesting_bounded\<close>). Calls set no empty function as a
  message handler (\<open>valid_call\<close>): the second call this makes possible is forbidden by \<open>session_i.hpp\<close>, and
  \<open>empty_handler_reads_twice\<close> shows what it does. The search for a free
  id is a partial function, defined exactly if some id is free; the events of the two servers with a table are
  limited to fewer than \<open>2 ^ 32 - 1\<close> connections, and \<open>chat_ids_exhausted\<close> shows what the next one does. The option
  loops end if \<open>getopt_long\<close> returns -1 some time.

  \<^bold>\<open>Parameters.\<close>
  Code outside the repository is an argument of the definitions: \<open>getopt_long\<close>; the results of binding, connecting and
  opening the console, and the texts of system errors (record \<open>os\<close>); the generated parser and serialiser of chat
  messages, any functions; the order in which a hash table is traversed, any permutation. Completions,
  accepted connections, expired timers, signals and console input are events, in any order. A completion obeys
  \<open>io_result\<close>: success transfers the whole buffer, a failure less, and an operation on a closed socket fails.

  \<^bold>\<open>Not modelled.\<close>
  The tests, the clients in Go, Python, Rust and Zig, headers without code (\<open>oizys.hpp\<close>, \<open>api.hpp\<close>, \<open>session.hpp\<close>), and
  asio and the operating system themselves. Allocation does not fail, and neither does closing a socket: \<open>socket_.close()\<close>
  is the overload that throws on failure, before the close handler is called, and the model has no such failure.
  A transfer and its completion handler are one step: the bytes of a write count as written when its handler runs,
  so that a peer never handles bytes whose writer has not been told yet. \<open>ShutdownProtobufLibrary\<close> at the end of the
  chat programs releases memory only and is left out. The life time of closures is not modelled: a message handler
  that closes its own session replaces the closure that is running, which is harmless only if
  it does not use what it has captured afterwards; no example program does this. The console reader of the chat client
  is given input from whichever descriptor it opened. Threads do not occur: every program has one, and
  handlers run one at a time inside the event loop.
\<close>

section \<open>The echo system\<close>

text \<open>A run of both programs: the client sends Hi, the server answers, the client ends.\<close>

definition system_client_events :: "client_event list" where
  "system_client_events = [Net 0 1 no_error [0, 0, 0, 2], Net 0 1 no_error [72, 105],
     Net 0 0 no_error [0, 0, 0, 2], Net 0 0 no_error [72, 105]]"

definition system_client :: echo_client_world where
  "system_client = the (state_of (run_until finished echo_client_handle system_client_events
     (echo_client_started [72, 105] quiet_echo_client)))"

definition system_server_events :: "server_event list" where
  "system_server_events = [Accepted no_error, Io 0 0 no_error [0, 0, 0, 2], Io 0 0 no_error [72, 105],
     Io 0 0 no_error [0, 0, 0, 2], Io 0 1 no_error [72, 105]]"

definition system_server :: echo_world where
  "system_server = the (state_of (handle_all echo_handle system_server_events (echo_listening ''e'' quiet_world)))"

lemma system_client_run:
  "run_until finished echo_client_handle system_client_events (echo_client_started [72, 105] quiet_echo_client)
     = Ok True system_client"
  "possible finished echo_client_occurs echo_client_handle system_client_events
     (echo_client_started [72, 105] quiet_echo_client)"
  "wire_out (heap system_client 0) = [0, 0, 0, 2, 72, 105]" "wire_in (heap system_client 0) = [0, 0, 0, 2, 72, 105]"
  by (simp_all add: system_client_def system_client_events_def echo_client_demo_defs)

lemma system_server_run:
  "handle_all echo_handle system_server_events (echo_listening ''e'' quiet_world) = Ok () system_server"
  "feasible (\<lambda>_. False) occurs echo_handle system_server_events (echo_listening ''e'' quiet_world)"
  "wire_out (heap system_server 0) = [0, 0, 0, 2, 72, 105]" "wire_in (heap system_server 0) = [0, 0, 0, 2, 72, 105]"
  "next_sid system_server = 1"
  by (simp_all add: system_server_def system_server_events_def echo_demo_defs)

text \<open>
  C1: the echo client and the echo server together, two programs joined by a byte stream in each
  direction, whatever else the server does: the client's handler is never given anything but the one
  message it has sent, at most once, and if the client's loop ends it has printed exactly this message.
\<close>

theorem echo_system:
  assumes client: "no_sessions cw" "valid_content message"
      "possible finished echo_client_occurs echo_client_handle es (echo_client_started message cw)"
      "run_until finished echo_client_handle es (echo_client_started message cw) = Ok ended wc"
    and server: "fresh sw" "served occurs echo_handle (echo_listening path sw) ws" "i < next_sid ws"
    and wires: "prefix (wire_in (heap ws i)) (wire_out (heap wc 0))" "prefix (wire_in (heap wc 0)) (wire_out (heap ws i))"
  shows "prefix (delivered (heap wc 0)) [message] \<and> (ended \<longrightarrow> cout wc = cout cw @ [message])"
proof -
  obtain w' where "run_until finished echo_client_handle es (echo_client_started message cw) = Ok (finished w') w'"
    "echo_client_inv [message] (cout cw) w'"
    using echo_client_program.run_until_returns [OF echo_client_started_inv [OF client(1,2)] client(3)] by blast
  with client(4) have c: "echo_client_inv [message] (cout cw) wc" "ended = finished wc" by auto
  have s: "echo_inv ws" by (rule served_echo_inv [OF server(1,2)])
  have inv: "session_inv False (heap wc 0)" "session_inv False (heap ws i)"
    using c(1) s store_invD [of "{}" wc 0] store_invD [of "{}" ws i]
    by (simp_all add: echo_client_inv_def one_session_def echo_inv_def)
  have acc: "accepted (heap ws i) = delivered (heap ws i)" "accepted (heap wc 0) = [message]"
    using s c(1) server(3) by (simp_all add: echo_inv_def echo_session_def echo_client_inv_def)
  note given = session_inv_D(4) [OF inv(1)] session_inv_D(4) [OF inv(2)]
  note request = end_to_end_sessions [OF inv(2,1) wires(1)] and reply = end_to_end_sessions [OF inv(1,2) wires(2)]
  have "prefix (delivered (heap wc 0)) (delivered (heap ws i))"
    using given(1) reply acc(1) by (auto simp: delivery_inv_def intro: prefix_order.trans)
  also have "prefix \<dots> [message]"
    using given(2) request acc(2) by (auto simp: delivery_inv_def intro: prefix_order.trans)
  finally have p: "prefix (delivered (heap wc 0)) [message]" .
  moreover have "cout wc = cout cw @ [message]" if "ended"
    using p c that by (cases "delivered (heap wc 0)") (auto simp: echo_client_inv_def)
  ultimately show ?thesis by blast
qed

theorem echo_system_witness:
  "cout system_client = [[72, 105]]"
proof -
  have v: "valid_content [72, 105]" by (simp add: valid_content_def)
  have srv: "served occurs echo_handle (echo_listening ''e'' quiet_world) system_server"
    by (rule handle_all_served [OF system_server_run(2,1)])
  from echo_system [OF no_sessions_quiet_echo_client v system_client_run(2,1) fresh_quiet_world srv, of 0]
  show ?thesis by (simp add: system_client_run system_server_run quiet_echo_client_def)
qed

end
